theory Spec2Isabelle
  imports Main "HOL-Library.Word"
begin

unbundle bit_operations_syntax

section \<open>uFAT: the block cache, the BPB parser and the FAT decoder of ufat.c\<close>

text \<open>
  The theory embeds the functions of \<^verbatim>\<open>ufat.c\<close> as HOL functions over an explicit
  volume state. The two headers \<^verbatim>\<open>ufat.h\<close> and \<^verbatim>\<open>ufat_internal.h\<close> are not part of
  the sources at hand; what the code takes from them is either a parameter of the
  model or modelled from the specification, and marked so where it is introduced:
  \<^item> \<^verbatim>\<open>ufat_block_t\<close> and the type of the statistics counters are type parameters
    of the records, and the functions take them as unsigned words \<open>'b word\<close> and
    \<open>'c word\<close> of any width;
  \<^item> \<^verbatim>\<open>unsigned int\<close>, \<^verbatim>\<open>uint32_t\<close> and \<^verbatim>\<open>ufat_cluster_t\<close> are 32-bit words,
    \<^verbatim>\<open>uint16_t\<close> and \<^verbatim>\<open>uint8_t\<close> 16-bit and 8-bit words; values of type \<^verbatim>\<open>int\<close>
    that only carry return codes are HOL integers;
  \<^item> the state behind the device's callbacks is a value of type \<open>'d\<close>, threaded
    through every call of \<^verbatim>\<open>dev->read\<close> and \<^verbatim>\<open>dev->write\<close>.
\<close>

subsection \<open>Data model\<close>

type_synonym byte = "8 word"
type_synonym uint = "32 word"
type_synonym ufat_cluster_t = "32 word"

text \<open>
  Modelled from the spec: the error codes of \<^verbatim>\<open>ufat.h\<close>, "stable numeric identities,
  ordered as an enum": OK, IO, BLOCK_SIZE, INVALID_BPB, BLOCK_ALIGNMENT,
  INVALID_CLUSTER, NAME_TOO_LONG, NOT_DIRECTORY, NOT_FILE.
\<close>

definition UFAT_OK :: int where "UFAT_OK = 0"
definition UFAT_ERR_IO :: int where "UFAT_ERR_IO = 1"
definition UFAT_ERR_BLOCK_SIZE :: int where "UFAT_ERR_BLOCK_SIZE = 2"
definition UFAT_ERR_INVALID_BPB :: int where "UFAT_ERR_INVALID_BPB = 3"
definition UFAT_ERR_BLOCK_ALIGNMENT :: int where "UFAT_ERR_BLOCK_ALIGNMENT = 4"
definition UFAT_ERR_INVALID_CLUSTER :: int where "UFAT_ERR_INVALID_CLUSTER = 5"

lemmas ufat_err_defs =
  UFAT_OK_def UFAT_ERR_IO_def UFAT_ERR_BLOCK_SIZE_def UFAT_ERR_INVALID_BPB_def
  UFAT_ERR_BLOCK_ALIGNMENT_def UFAT_ERR_INVALID_CLUSTER_def

text \<open>
  Modelled from the spec: the tunables \<^verbatim>\<open>UFAT_DIRENT_SIZE = 32\<close> and
  \<^verbatim>\<open>UFAT_CLUSTER_MASK = 0x0FFFFFFF\<close> of \<^verbatim>\<open>ufat_internal.h\<close>.
\<close>

definition UFAT_DIRENT_SIZE :: int where "UFAT_DIRENT_SIZE = 32"
definition UFAT_CLUSTER_MASK :: "32 word" where "UFAT_CLUSTER_MASK = 0x0FFFFFFF"

text \<open>
  The constants of the headers whose values the specification does not give are the
  fields of a parameter \<open>K\<close> of the functions that use them: the two cache tunables
  and the two sentinels that the FAT decoder stores for end-of-chain and bad-cluster
  entries.
\<close>

record ufat_consts =
  UFAT_CACHE_BYTES :: nat
  UFAT_CACHE_MAX_BLOCKS :: nat
  UFAT_CLUSTER_EOC :: "32 word"
  UFAT_CLUSTER_BAD :: "32 word"

text \<open>
  Modelled from the spec: the flags of a cache slot, "flags \<open>\<subseteq>\<close> {PRESENT, DIRTY}".
  The flag word of the C structure is the set of the flags whose bit is set.
\<close>

datatype cache_flag = UFAT_CACHE_FLAG_DIRTY | UFAT_CACHE_FLAG_PRESENT

record 'b ufat_cache_desc =
  index :: 'b
  seq :: uint
  flags :: "cache_flag set"

datatype ufat_type = UFAT_TYPE_FAT12 | UFAT_TYPE_FAT16 | UFAT_TYPE_FAT32

record 'b ufat_bpb =
  type :: ufat_type
  log2_blocks_per_cluster :: nat
  fat_start :: 'b
  fat_size :: 'b
  fat_count :: uint
  root_size :: 'b
  root_start :: 'b
  cluster_start :: 'b
  root_cluster :: ufat_cluster_t
  num_clusters :: ufat_cluster_t

text \<open>
  The device: its block size and its two callbacks. A callback receives the state of
  the device and returns the new one with its \<^verbatim>\<open>int\<close> result; \<open>dev_read\<close> (the member
  \<^verbatim>\<open>read\<close>) also receives the old contents of the buffer and returns the new
  contents; \<open>dev_write\<close> is the member \<^verbatim>\<open>write\<close>. A negative result is a failure.
\<close>

record ('d, 'b) ufat_device =
  log2_block_size :: nat
  dev_read :: "'d \<Rightarrow> 'b \<Rightarrow> nat \<Rightarrow> byte list \<Rightarrow> int \<times> byte list \<times> 'd"
  dev_write :: "'d \<Rightarrow> 'b \<Rightarrow> nat \<Rightarrow> byte list \<Rightarrow> int \<times> 'd"

record 'c ufat_stat =
  stat_read :: 'c
  stat_write :: 'c
  read_blocks :: 'c
  write_blocks :: 'c
  cache_hit :: 'c
  cache_miss :: 'c

text \<open>
  The volume. \<open>disk\<close> is the state behind \<open>dev\<close>. \<open>cache_desc\<close> is the array of
  \<^verbatim>\<open>UFAT_CACHE_MAX_BLOCKS\<close> descriptors, \<open>cache_data\<close> the cache memory as a store
  from slot numbers to buffers (\<^verbatim>\<open>ufat_cache_data(uf, i)\<close> is the buffer of slot \<open>i\<close>).
\<close>

record ('d, 'b, 'c) ufat =
  dev :: "('d, 'b) ufat_device"
  disk :: 'd
  bpb :: "'b ufat_bpb"
  next_seq :: uint
  cache_size :: nat
  cache_desc :: "'b ufat_cache_desc list"
  cache_data :: "nat \<Rightarrow> byte list"
  stat :: "'c ufat_stat"

definition ufat_cache_data :: "('d, 'b::len word, 'c::len word) ufat \<Rightarrow> nat \<Rightarrow> byte list" where
  "ufat_cache_data uf i = cache_data uf i"

text \<open>
  The conversions between \<^verbatim>\<open>unsigned int\<close> and \<^verbatim>\<open>int\<close> that the cache scan makes
  when it stores a slot number in \<^verbatim>\<open>free\<close> or \<^verbatim>\<open>oldest\<close> and reads it back.
\<close>

definition int_of_unsigned :: "nat \<Rightarrow> int" where
  "int_of_unsigned n = sint (word_of_nat n :: 32 word)"

definition unsigned_of_int :: "int \<Rightarrow> nat" where
  "unsigned_of_int k = unat (word_of_int k :: 32 word)"

subsection \<open>cache_flush\<close>

definition count_write :: "('d, 'b::len word, 'c::len word) ufat \<Rightarrow> ('d, 'b word, 'c word) ufat" where
  "count_write uf =
     uf\<lparr>stat := (stat uf)\<lparr>stat_write := stat_write (stat uf) + 1,
                           write_blocks := write_blocks (stat uf) + 1\<rparr>\<rparr>"

text \<open>
  The mirror loop of \<^verbatim>\<open>cache_flush\<close>: \<open>i\<close> runs from its start value up to
  \<open>fat_count\<close>, \<open>b\<close> is advanced by \<open>fat_size\<close> in every round, and the block written
  is \<^verbatim>\<open>d->index\<close>. The result of the write is dropped.
\<close>

function mirror_loop ::
  "('d, 'b::len word, 'c::len word) ufat \<Rightarrow> nat \<Rightarrow> nat \<Rightarrow> 'b word \<Rightarrow> ('d, 'b word, 'c word) ufat" where
  "mirror_loop uf cache_index i b =
     (if i < unat (fat_count (bpb uf)) then
        let d = cache_desc uf ! cache_index;
            b' = b + fat_size (bpb uf);
            (r, dk) = dev_write (dev uf) (disk uf) (index d) 1 (ufat_cache_data uf cache_index)
        in mirror_loop (count_write (uf\<lparr>disk := dk\<rparr>)) cache_index (Suc i) b'
      else uf)"
  by pat_completeness auto
termination
  by (relation "measure (\<lambda>(uf, ci, i, b). unat (fat_count (bpb uf)) - i)")
     (auto simp: count_write_def)

declare mirror_loop.simps [simp del]

definition cache_flush ::
  "('d, 'b::len word, 'c::len word) ufat \<Rightarrow> nat \<Rightarrow> int \<times> ('d, 'b word, 'c word) ufat" where
  "cache_flush uf cache_index =
     (let d = cache_desc uf ! cache_index in
      if UFAT_CACHE_FLAG_DIRTY \<notin> flags d \<or> UFAT_CACHE_FLAG_PRESENT \<notin> flags d then (0, uf)
      else
        let (r, dk) = dev_write (dev uf) (disk uf) (index d) 1 (ufat_cache_data uf cache_index)
        in if r < 0 then (- UFAT_ERR_IO, uf\<lparr>disk := dk\<rparr>)
           else
             let uf1 = count_write (uf\<lparr>disk := dk\<rparr>);
                 uf2 = (if fat_start (bpb uf1) \<le> index d \<and>
                           index d < fat_start (bpb uf1) + fat_size (bpb uf1)
                        then mirror_loop uf1 cache_index 1 (index d)
                        else uf1)
             in (0, uf2\<lparr>cache_desc := (cache_desc uf2)
                           [cache_index := d\<lparr>flags := flags d - {UFAT_CACHE_FLAG_DIRTY}\<rparr>]\<rparr>))"

text \<open>
  The call \<^verbatim>\<open>uf->dev->write(uf->dev, d->index, 1, ufat_cache_data(uf, cache_index))\<close> as
  a function of the state of the device: the state after the call.
\<close>

definition slot_write ::
  "('d, 'b::len word, 'c::len word) ufat \<Rightarrow> nat \<Rightarrow> 'd \<Rightarrow> 'd" where
  "slot_write uf ci dk =
     snd (dev_write (dev uf) dk (index (cache_desc uf ! ci)) 1 (ufat_cache_data uf ci))"

subsection \<open>ufat_cache_open\<close>

text \<open>
  The scan of \<^verbatim>\<open>ufat_cache_open\<close>, from slot \<open>i\<close> on, with the current values of
  \<^verbatim>\<open>oldest\<close>, \<^verbatim>\<open>free\<close> and \<^verbatim>\<open>oldest_age\<close>. The scan changes nothing before it
  returns: \<open>Inl i\<close> is the early return at the slot that holds the block, \<open>Inr\<close> the
  values of \<^verbatim>\<open>oldest\<close> and \<^verbatim>\<open>free\<close> at the end of the loop.
\<close>

function cache_scan ::
  "('d, 'b::len word, 'c::len word) ufat \<Rightarrow> 'b word \<Rightarrow> nat \<Rightarrow> int \<Rightarrow> int \<Rightarrow> uint \<Rightarrow> nat + int \<times> int" where
  "cache_scan uf blk_index i oldest free oldest_age =
     (if i < cache_size uf then
        let d = cache_desc uf ! i;
            age = next_seq uf - seq d
        in if UFAT_CACHE_FLAG_PRESENT \<in> flags d \<and> index d = blk_index then Inl i
           else
             let free' = (if UFAT_CACHE_FLAG_PRESENT \<notin> flags d then int_of_unsigned i else free)
             in if oldest < 0 \<or> age > oldest_age
                then cache_scan uf blk_index (Suc i) (int_of_unsigned i) free' age
                else cache_scan uf blk_index (Suc i) oldest free' oldest_age
      else Inr (oldest, free))"
  by pat_completeness auto
termination
  by (relation "measure (\<lambda>(uf, blk, i, oldest, free, age). cache_size uf - i)") auto

declare cache_scan.simps [simp del]

text \<open>The hit: \<^verbatim>\<open>d->seq = uf->next_seq++; uf->stat.cache_hit++; return i\<close>.\<close>

definition cache_hit_slot ::
  "('d, 'b::len word, 'c::len word) ufat \<Rightarrow> nat \<Rightarrow> int \<times> ('d, 'b word, 'c word) ufat" where
  "cache_hit_slot uf i =
     (let d = cache_desc uf ! i
      in (int_of_unsigned i,
          uf\<lparr>cache_desc := (cache_desc uf)[i := d\<lparr>seq := next_seq uf\<rparr>],
             next_seq := next_seq uf + 1,
             stat := (stat uf)\<lparr>cache_hit := cache_hit (stat uf) + 1\<rparr>\<rparr>))"

text \<open>The tail of \<^verbatim>\<open>ufat_cache_open\<close> from the comment "Read it in" on.\<close>

definition cache_read_in ::
  "('d, 'b::len word, 'c::len word) ufat \<Rightarrow> 'b word \<Rightarrow> nat \<Rightarrow> int \<times> ('d, 'b word, 'c word) ufat" where
  "cache_read_in uf blk_index i =
     (let (err, buf, dk) = dev_read (dev uf) (disk uf) blk_index 1 (ufat_cache_data uf i);
          uf1 = uf\<lparr>disk := dk, cache_data := (cache_data uf)(i := buf)\<rparr>;
          d = cache_desc uf1 ! i
      in if err < 0 then (err, uf1\<lparr>cache_desc := (cache_desc uf1)[i := d\<lparr>flags := {}\<rparr>]\<rparr>)
         else
           (int_of_unsigned i,
            uf1\<lparr>cache_desc := (cache_desc uf1)
                   [i := d\<lparr>flags := {UFAT_CACHE_FLAG_PRESENT},
                           index := blk_index,
                           seq := next_seq uf1\<rparr>],
                next_seq := next_seq uf1 + 1,
                stat := (stat uf1)\<lparr>cache_miss := cache_miss (stat uf1) + 1,
                                   stat_read := stat_read (stat uf1) + 1,
                                   read_blocks := read_blocks (stat uf1) + 1\<rparr>\<rparr>))"

definition ufat_cache_open ::
  "('d, 'b::len word, 'c::len word) ufat \<Rightarrow> 'b word \<Rightarrow> int \<times> ('d, 'b word, 'c word) ufat" where
  "ufat_cache_open uf blk_index =
     (case cache_scan uf blk_index 0 (-1) (-1) 0 of
        Inl i \<Rightarrow> cache_hit_slot uf i
      | Inr (oldest, free) \<Rightarrow>
          if 0 \<le> free then cache_read_in uf blk_index (unsigned_of_int free)
          else
            let (err, uf1) = cache_flush uf (unsigned_of_int oldest)
            in if err < 0 then (err, uf1)
               else cache_read_in uf1 blk_index (unsigned_of_int oldest))"

subsection \<open>log2_exact and parse_bpb\<close>

text \<open>
  Modelled from the spec: the little-endian readers \<^verbatim>\<open>r16\<close> and \<^verbatim>\<open>r32\<close> of
  \<^verbatim>\<open>ufat_internal.h\<close>. The pointer \<^verbatim>\<open>p + off\<close> is the buffer with the offset.
\<close>

definition r16 :: "byte list \<Rightarrow> nat \<Rightarrow> 16 word" where
  "r16 buf off = ucast (buf ! off) OR push_bit 8 (ucast (buf ! (off + 1)))"

definition r32 :: "byte list \<Rightarrow> nat \<Rightarrow> 32 word" where
  "r32 buf off =
     ucast (buf ! off) OR push_bit 8 (ucast (buf ! (off + 1))) OR
     push_bit 16 (ucast (buf ! (off + 2))) OR push_bit 24 (ucast (buf ! (off + 3)))"

text \<open>The loop of \<^verbatim>\<open>log2_exact\<close>; \<open>None\<close> is the return of \<open>-1\<close> from its body.\<close>

function log2_loop :: "uint \<Rightarrow> nat \<Rightarrow> nat option" where
  "log2_loop e count =
     (if 1 < e then
        if (e AND 1) \<noteq> 0 then None else log2_loop (drop_bit 1 e) (Suc count)
      else Some count)"
  by pat_completeness auto
termination
proof (relation "measure (\<lambda>(e, count). unat e)")
  show "wf (measure (\<lambda>(e :: uint, count :: nat). unat e))"
    by simp
next
  fix e :: uint and count :: nat
  assume "1 < e"
  then have "0 < unat e"
    by (simp add: word_less_nat_alt)
  then have "unat e div 2 < unat e"
    by simp
  then show "((drop_bit 1 e, Suc count), (e, count)) \<in> measure (\<lambda>(e, count). unat e)"
    by (simp add: drop_bit_eq_div unat_div)
qed

declare log2_loop.simps [simp del]

text \<open>
  \<^verbatim>\<open>log2_exact\<close>: \<open>None\<close> is the result \<open>-1\<close>, which leaves \<^verbatim>\<open>*ret\<close> alone, and
  \<open>Some count\<close> the result \<open>0\<close> with \<open>count\<close> stored in \<^verbatim>\<open>*ret\<close>.
\<close>

definition log2_exact :: "uint \<Rightarrow> nat option" where
  "log2_exact e = (if e = 0 then None else log2_loop e 0)"

text \<open>
  \<^verbatim>\<open>parse_bpb\<close>. The initialiser of \<^verbatim>\<open>root_sectors\<close> divides by
  \<^verbatim>\<open>bytes_per_sector\<close> before anything is validated; the result \<open>None\<close> is that
  division by zero. Otherwise the result is the return value with the geometry record
  as the code leaves it, also on the error returns. The buffer \<^verbatim>\<open>bpb\<close> of the code is
  \<open>bpb_bytes\<close> here, since \<open>bpb\<close> is the field of the volume.
\<close>

definition parse_bpb ::
  "nat \<Rightarrow> ('b::len) word ufat_bpb \<Rightarrow> byte list \<Rightarrow> (int \<times> 'b word ufat_bpb) option" where
  "parse_bpb log2_bytes_per_block ufb bpb_bytes =
     (let bytes_per_sector = r16 bpb_bytes 0x00b;
          sectors_per_cluster = bpb_bytes ! 0x00d;
          reserved_sector_count = r16 bpb_bytes 0x00e;
          root_entries = r16 bpb_bytes 0x011;
          sectors_per_fat0 = (ucast (r16 bpb_bytes 0x016) :: 32 word);
          total_logical_sectors0 = (ucast (r16 bpb_bytes 0x013) :: 32 word);
          number_of_fats = bpb_bytes ! 0x010;
          root_cluster = r32 bpb_bytes 0x02c
      in
      if bytes_per_sector = 0 then None
      else
        let root_sectors = (word_of_int
              ((uint root_entries * UFAT_DIRENT_SIZE + uint bytes_per_sector - 1) div
               uint bytes_per_sector) :: 32 word)
        in
        if log2_bytes_per_block < 9 then Some (- UFAT_ERR_BLOCK_SIZE, ufb)
        else
          let total_logical_sectors =
                (if total_logical_sectors0 = 0 then r32 bpb_bytes 0x020 else total_logical_sectors0);
              sectors_per_fat =
                (if sectors_per_fat0 = 0 then r32 bpb_bytes 0x024 else sectors_per_fat0)
          in
          case (log2_exact (ucast bytes_per_sector), log2_exact (ucast sectors_per_cluster)) of
            (None, _) \<Rightarrow> Some (- UFAT_ERR_INVALID_BPB, ufb)
          | (Some _, None) \<Rightarrow> Some (- UFAT_ERR_INVALID_BPB, ufb)
          | (Some log2_bytes_per_sector, Some log2_sectors_per_cluster) \<Rightarrow>
          if r16 bpb_bytes 0x1fe \<noteq> 0xaa55 then Some (- UFAT_ERR_INVALID_BPB, ufb)
          else
            let (err, ufb1) =
             (if log2_bytes_per_sector < log2_bytes_per_block then
                let shift = log2_bytes_per_block - log2_bytes_per_sector in
                if log2_sectors_per_cluster < shift then (- UFAT_ERR_BLOCK_ALIGNMENT, ufb)
                else
                  let ufb' = ufb\<lparr>log2_blocks_per_cluster := log2_sectors_per_cluster - shift\<rparr> in
                  if ((ucast reserved_sector_count OR sectors_per_fat OR root_sectors) AND
                      (push_bit shift 1 - 1)) \<noteq> 0
                  then (- UFAT_ERR_BLOCK_ALIGNMENT, ufb')
                  else (0, ufb'\<lparr>fat_start := ucast (drop_bit shift reserved_sector_count),
                                 fat_size := ucast (drop_bit shift sectors_per_fat),
                                 root_size := ucast (drop_bit shift root_sectors)\<rparr>)
              else
                let shift = log2_bytes_per_sector - log2_bytes_per_block in
                (0, ufb\<lparr>log2_blocks_per_cluster := log2_sectors_per_cluster + shift,
                        fat_start := ucast (push_bit shift (ucast reserved_sector_count :: 32 word)),
                        fat_size := ucast (push_bit shift sectors_per_fat),
                        root_size := ucast (push_bit shift root_sectors)\<rparr>))
            in
            if err \<noteq> 0 then Some (err, ufb1)
            else if number_of_fats = 0 then Some (- UFAT_ERR_INVALID_BPB, ufb1)
            else
              let ufb2 = ufb1\<lparr>fat_count := ucast number_of_fats,
                              num_clusters :=
                                drop_bit log2_sectors_per_cluster
                                  (total_logical_sectors - ucast reserved_sector_count -
                                   sectors_per_fat * ucast number_of_fats -
                                   root_sectors) + 2,
                              root_cluster := root_cluster AND UFAT_CLUSTER_MASK\<rparr>;
                  ufb3 = ufb2\<lparr>root_start :=
                                fat_start ufb2 + fat_size ufb2 * ucast (fat_count ufb2)\<rparr>;
                  ufb4 = ufb3\<lparr>cluster_start := root_start ufb3 + root_size ufb3\<rparr>
              in
              if root_sectors = 0 then Some (0, ufb4\<lparr>type := UFAT_TYPE_FAT32\<rparr>)
              else
                let ufb5 = ufb4\<lparr>root_cluster := 0\<rparr> in
                if num_clusters ufb5 < 4085 then Some (0, ufb5\<lparr>type := UFAT_TYPE_FAT12\<rparr>)
                else Some (0, ufb5\<lparr>type := UFAT_TYPE_FAT16\<rparr>))"

subsection \<open>read_bpb, ufat_open\<close>

definition read_bpb ::
  "('d, 'b::len word, 'c::len word) ufat \<Rightarrow> (int \<times> ('d, 'b word, 'c word) ufat) option" where
  "read_bpb uf =
     (let (idx, uf1) = ufat_cache_open uf 0 in
      if idx < 0 then Some (idx, uf1)
      else
        case parse_bpb (log2_block_size (dev uf1)) (bpb uf1)
               (ufat_cache_data uf1 (unsigned_of_int idx)) of
          None \<Rightarrow> None
        | Some (r, ufb) \<Rightarrow> Some (r, uf1\<lparr>bpb := ufb\<rparr>))"

text \<open>
  \<^verbatim>\<open>ufat_open\<close>; the device comes with the state behind it. The two calls of
  \<^verbatim>\<open>memset\<close> set every counter and every field of the
  \<^verbatim>\<open>UFAT_CACHE_MAX_BLOCKS\<close> descriptors to zero. The shift of \<^verbatim>\<open>UFAT_CACHE_BYTES\<close> is
  the shift of a natural number, which is 0 where the shift count reaches the width
  of the C type and the C shift is undefined.
\<close>

definition ufat_open ::
  "ufat_consts \<Rightarrow> ('d, 'b::len word, 'c::len word) ufat \<Rightarrow> ('d, 'b word) ufat_device \<Rightarrow> 'd
     \<Rightarrow> (int \<times> ('d, 'b word, 'c word) ufat) option" where
  "ufat_open K uf device dk =
     (let uf1 = uf\<lparr>dev := device, disk := dk, next_seq := 0,
                   cache_size := drop_bit (log2_block_size device) (UFAT_CACHE_BYTES K)\<rparr>;
          uf2 = (if UFAT_CACHE_MAX_BLOCKS K < cache_size uf1
                 then uf1\<lparr>cache_size := UFAT_CACHE_MAX_BLOCKS K\<rparr> else uf1)
      in
      if cache_size uf2 = 0 then Some (- UFAT_ERR_BLOCK_SIZE, uf2)
      else
        read_bpb (uf2\<lparr>stat := \<lparr>stat_read = 0, stat_write = 0, read_blocks = 0,
                               write_blocks = 0, cache_hit = 0, cache_miss = 0\<rparr>,
                      cache_desc := replicate (UFAT_CACHE_MAX_BLOCKS K)
                                      \<lparr>index = 0, seq = 0, flags = {}\<rparr>\<rparr>))"

subsection \<open>ufat_sync, ufat_close\<close>

lemma mirror_loop_cache_size: "cache_size (mirror_loop uf ci i b) = cache_size uf"
proof (induction uf ci i b rule: mirror_loop.induct)
  case (1 uf ci i b)
  show ?case
  proof (cases "i < unat (fat_count (bpb uf))")
    case True
    then show ?thesis
      using "1.IH"
      by (subst mirror_loop.simps) (auto simp: count_write_def Let_def split: prod.splits)
  next
    case False
    then show ?thesis by (subst mirror_loop.simps) simp
  qed
qed

lemma cache_flush_cache_size: "cache_size (snd (cache_flush uf i)) = cache_size uf"
  by (simp add: cache_flush_def Let_def count_write_def mirror_loop_cache_size
      split: prod.splits)

text \<open>
  The loop of \<^verbatim>\<open>ufat_sync\<close> from slot \<open>i\<close> on, with the current value of \<^verbatim>\<open>ret\<close>;
  its result is the value of \<^verbatim>\<open>ret\<close> at the end of the loop.
\<close>

function sync_loop ::
  "('d, 'b::len word, 'c::len word) ufat \<Rightarrow> nat \<Rightarrow> int \<Rightarrow> int \<times> ('d, 'b word, 'c word) ufat" where
  "sync_loop uf i ret =
     (if i < cache_size uf then
        let (err, uf1) = cache_flush uf i
        in sync_loop uf1 (Suc i) (if err \<noteq> 0 then err else ret)
      else (ret, uf))"
  by pat_completeness auto
termination
proof (relation "measure (\<lambda>(uf, i, ret). cache_size uf - i)")
  show "wf (measure (\<lambda>(uf :: ('d, 'b word, 'c word) ufat, i :: nat, ret :: int).
              cache_size uf - i))"
    by simp
next
  fix uf :: "('d, 'b word, 'c word) ufat" and i :: nat and ret :: int and x err uf1
  assume "i < cache_size uf" "x = cache_flush uf i" "(err, uf1) = x"
  then have "cache_size uf1 = cache_size uf" "i < cache_size uf"
    using cache_flush_cache_size [of uf i] by (auto simp: snd_def split: prod.splits)
  then show "((uf1, Suc i, if err \<noteq> 0 then err else ret), uf, i, ret)
       \<in> measure (\<lambda>(uf, i, ret). cache_size uf - i)"
    by auto
qed

declare sync_loop.simps [simp del]

text \<open>\<^verbatim>\<open>ufat_sync\<close> runs the loop and ends with \<^verbatim>\<open>return 0\<close>.\<close>

definition ufat_sync ::
  "('d, 'b::len word, 'c::len word) ufat \<Rightarrow> int \<times> ('d, 'b word, 'c word) ufat" where
  "ufat_sync uf = (let (ret, uf1) = sync_loop uf 0 0 in (0, uf1))"

definition ufat_close ::
  "('d, 'b::len word, 'c::len word) ufat \<Rightarrow> ('d, 'b word, 'c word) ufat" where
  "ufat_close uf = snd (ufat_sync uf)"

subsection \<open>The FAT decoder\<close>

text \<open>
  The decoders return the \<^verbatim>\<open>int\<close> result, the value stored through \<^verbatim>\<open>out\<close>
  (\<open>None\<close> when nothing is stored) and the volume. The shift counts
  \<^verbatim>\<open>log2_block_size - 1\<close> and \<^verbatim>\<open>log2_block_size - 2\<close> are differences of natural
  numbers; on a mounted volume \<open>log2_block_size\<close> is at least 9.
\<close>

definition read_fat12 ::
  "('d, 'b::len word, 'c::len word) ufat \<Rightarrow> ufat_cluster_t
     \<Rightarrow> int \<times> ufat_cluster_t option \<times> ('d, 'b word, 'c word) ufat" where
  "read_fat12 uf idx = (-1, None, uf)"

definition read_fat16 ::
  "ufat_consts \<Rightarrow> ('d, 'b::len word, 'c::len word) ufat \<Rightarrow> ufat_cluster_t
     \<Rightarrow> int \<times> ufat_cluster_t option \<times> ('d, 'b word, 'c word) ufat" where
  "read_fat16 K uf idx =
     (let shift = log2_block_size (dev uf) - 1;
          b = drop_bit shift idx;
          r = idx AND (push_bit shift 1 - 1);
          (i, uf1) = ufat_cache_open uf (fat_start (bpb uf) + ucast b)
      in if i < 0 then (i, None, uf1)
         else
           let raw = r16 (ufat_cache_data uf1 (unsigned_of_int i)) (unat (r * 2))
           in if 0xfff8 \<le> raw then (0, Some (UFAT_CLUSTER_EOC K), uf1)
              else if 0xfff0 \<le> raw then (0, Some (UFAT_CLUSTER_BAD K), uf1)
              else (0, Some (ucast raw), uf1))"

definition read_fat32 ::
  "ufat_consts \<Rightarrow> ('d, 'b::len word, 'c::len word) ufat \<Rightarrow> ufat_cluster_t
     \<Rightarrow> int \<times> ufat_cluster_t option \<times> ('d, 'b word, 'c word) ufat" where
  "read_fat32 K uf idx =
     (let shift = log2_block_size (dev uf) - 2;
          b = drop_bit shift idx;
          r = idx AND (push_bit shift 1 - 1);
          (i, uf1) = ufat_cache_open uf (fat_start (bpb uf) + ucast b)
      in if i < 0 then (i, None, uf1)
         else
           let raw = r32 (ufat_cache_data uf1 (unsigned_of_int i)) (unat (r * 4))
                       AND UFAT_CLUSTER_MASK
           in if 0xffffff8 \<le> raw then (0, Some (UFAT_CLUSTER_EOC K), uf1)
              else if 0xffffff0 \<le> raw then (0, Some (UFAT_CLUSTER_BAD K), uf1)
              else (0, Some raw, uf1))"

definition ufat_read_fat ::
  "ufat_consts \<Rightarrow> ('d, 'b::len word, 'c::len word) ufat \<Rightarrow> ufat_cluster_t
     \<Rightarrow> int \<times> ufat_cluster_t option \<times> ('d, 'b word, 'c word) ufat" where
  "ufat_read_fat K uf idx =
     (if num_clusters (bpb uf) \<le> idx then (- UFAT_ERR_INVALID_CLUSTER, None, uf)
      else
        case type (bpb uf) of
          UFAT_TYPE_FAT12 \<Rightarrow> read_fat12 uf idx
        | UFAT_TYPE_FAT16 \<Rightarrow> read_fat16 K uf idx
        | UFAT_TYPE_FAT32 \<Rightarrow> read_fat32 K uf idx)"

subsection \<open>The cache as a set of blocks, and runs of ufat_cache_open\<close>

definition slot_present :: "('d, 'b::len word, 'c::len word) ufat \<Rightarrow> nat \<Rightarrow> bool" where
  "slot_present uf i \<longleftrightarrow> UFAT_CACHE_FLAG_PRESENT \<in> flags (cache_desc uf ! i)"

definition slot_index :: "('d, 'b::len word, 'c::len word) ufat \<Rightarrow> nat \<Rightarrow> 'b word" where
  "slot_index uf i = index (cache_desc uf ! i)"

text \<open>
  What \<^verbatim>\<open>ufat_open\<close> establishes before the first use of the cache: there is at least
  one slot, the slots in use are elements of the descriptor array, and a slot number
  fits the \<^verbatim>\<open>int\<close> that \<^verbatim>\<open>ufat_cache_open\<close> returns. Outside of it the code reads
  and writes beyond the array.
\<close>

definition cache_ok :: "('d, 'b::len word, 'c::len word) ufat \<Rightarrow> bool" where
  "cache_ok uf \<longleftrightarrow>
     0 < cache_size uf \<and> cache_size uf \<le> length (cache_desc uf) \<and> cache_size uf < 2 ^ 31"

definition cache_empty :: "('d, 'b::len word, 'c::len word) ufat \<Rightarrow> bool" where
  "cache_empty uf \<longleftrightarrow> (\<forall>i < cache_size uf. \<not> slot_present uf i)"

definition cache_unique :: "('d, 'b::len word, 'c::len word) ufat \<Rightarrow> bool" where
  "cache_unique uf \<longleftrightarrow>
     (\<forall>i < cache_size uf. \<forall>j < cache_size uf.
        i \<noteq> j \<and> slot_present uf i \<and> slot_present uf j \<longrightarrow> slot_index uf i \<noteq> slot_index uf j)"

definition blk_present :: "('d, 'b::len word, 'c::len word) ufat \<Rightarrow> 'b word \<Rightarrow> bool" where
  "blk_present uf b \<longleftrightarrow> (\<exists>i < cache_size uf. slot_present uf i \<and> slot_index uf i = b)"

text \<open>
  A run of calls of \<^verbatim>\<open>ufat_cache_open\<close>, one for each block of a list: the volume
  after the run, and the number of the calls that returned a slot (a result that is not
  negative).
\<close>

fun cache_opens ::
  "('d, 'b::len word, 'c::len word) ufat \<Rightarrow> 'b word list \<Rightarrow> ('d, 'b word, 'c word) ufat" where
  "cache_opens uf [] = uf"
| "cache_opens uf (b # bs) = cache_opens (snd (ufat_cache_open uf b)) bs"

fun opens_served :: "('d, 'b::len word, 'c::len word) ufat \<Rightarrow> 'b word list \<Rightarrow> nat" where
  "opens_served uf [] = 0"
| "opens_served uf (b # bs) =
     (if 0 \<le> fst (ufat_cache_open uf b) then 1 else 0) +
     opens_served (snd (ufat_cache_open uf b)) bs"

subsection \<open>Concrete devices and volumes\<close>

text \<open>
  The instances at which the theorems below are applied. A device state is the list of
  the writes the device has received, in their order. \<open>ram_dev img\<close> is a disk of
  512-byte blocks that starts with the contents \<open>img\<close>, stores what is written and
  never fails.
\<close>

type_synonym write_log = "(64 word \<times> byte list) list"

definition ram_dev :: "(64 word \<Rightarrow> byte list) \<Rightarrow> (write_log, 64 word) ufat_device" where
  "ram_dev img =
     \<lparr>log2_block_size = 9,
      dev_read = (\<lambda>st blk n buf.
        (0, (case map_of (rev st) blk of Some d \<Rightarrow> d | None \<Rightarrow> img blk), st)),
      dev_write = (\<lambda>st blk n buf. (0, st @ [(blk, buf)]))\<rparr>"

text \<open>
  A boot sector of 512 bytes: 512 bytes in a sector, 4 sectors in a cluster, 4 reserved
  sectors, 2 FATs of 64 sectors, 512 root entries and the signature; \<open>t16\<close> is the
  16-bit field of the total number of sectors at offset 0x13, \<open>t32\<close> the 32-bit field
  at offset 0x20.
\<close>

definition boot_sector :: "16 word \<Rightarrow> 32 word \<Rightarrow> byte list" where
  "boot_sector t16 t32 =
     replicate 11 0 @
     [0x00, 0x02, 0x04, 0x04, 0x00, 0x02, 0x00, 0x02,
      ucast t16, ucast (drop_bit 8 t16), 0xF8, 0x40, 0x00] @
     replicate 8 0 @
     [ucast t32, ucast (drop_bit 8 t32), ucast (drop_bit 16 t32), ucast (drop_bit 24 t32)] @
     replicate 474 0 @ [0x55, 0xAA]"

text \<open>
  \<open>boot_only_dev e\<close> serves the boot sector of a volume of 65536 sectors when block 0
  is read, and fails every other read and every write with the result \<open>e\<close>.
\<close>

definition boot_only_dev :: "int \<Rightarrow> (write_log, 64 word) ufat_device" where
  "boot_only_dev e =
     \<lparr>log2_block_size = 9,
      dev_read = (\<lambda>st blk n buf.
        if blk = 0 then (0, boot_sector 0 65536, st) else (e, buf, st)),
      dev_write = (\<lambda>st blk n buf. (e, st))\<rparr>"

text \<open>
  \<open>small_dev\<close> is a disk of 8 blocks, each with the contents of that boot sector: a
  read of a block from 8 on fails with the result \<open>-1\<close>, and every write is accepted.
\<close>

definition small_dev :: "(write_log, 64 word) ufat_device" where
  "small_dev =
     \<lparr>log2_block_size = 9,
      dev_read = (\<lambda>st blk n buf.
        if blk < 8 then (0, boot_sector 0 65536, st) else (-1, buf, st)),
      dev_write = (\<lambda>st blk n buf. (0, st @ [(blk, buf)]))\<rparr>"

text \<open>Sample values of the constants that are parameters of the model.\<close>

definition K0 :: ufat_consts where
  "K0 = \<lparr>UFAT_CACHE_BYTES = 1024, UFAT_CACHE_MAX_BLOCKS = 2,
         UFAT_CLUSTER_EOC = 0xFFFFFFF8, UFAT_CLUSTER_BAD = 0xFFFFFFF0\<rparr>"

text \<open>
  A volume on a device, with \<open>n\<close> cache slots, all of them free, the geometry \<open>g\<close>,
  and all counters zero.
\<close>

definition fresh_volume ::
  "(write_log, 64 word) ufat_device \<Rightarrow> 64 word ufat_bpb \<Rightarrow> nat
     \<Rightarrow> (write_log, 64 word, 32 word) ufat" where
  "fresh_volume device g n =
     \<lparr>dev = device, disk = [], bpb = g, next_seq = 0, cache_size = n,
      cache_desc = replicate n \<lparr>index = 0, seq = 0, flags = {}\<rparr>,
      cache_data = (\<lambda>i. []),
      stat = \<lparr>stat_read = 0, stat_write = 0, read_blocks = 0, write_blocks = 0,
              cache_hit = 0, cache_miss = 0\<rparr>\<rparr>"

text \<open>
  The geometry of a volume of the type \<open>t\<close> with 4 reserved blocks, two FATs of 64
  blocks, a root directory of 32 blocks and \<open>n\<close> clusters.
\<close>

definition geometry :: "ufat_type \<Rightarrow> ufat_cluster_t \<Rightarrow> 64 word ufat_bpb" where
  "geometry t n =
     \<lparr>type = t, log2_blocks_per_cluster = 2, fat_start = 4, fat_size = 64, fat_count = 2,
      root_size = 32, root_start = 132, cluster_start = 164, root_cluster = 0,
      num_clusters = n\<rparr>"

text \<open>
  The volume that \<^verbatim>\<open>ufat_open\<close> makes of \<open>fresh_volume (boot_only_dev e) g 0\<close> with
  the constants \<open>K0\<close>: two slots, the boot sector in the second one.
\<close>

definition mounted_volume :: "int \<Rightarrow> (write_log, 64 word, 32 word) ufat" where
  "mounted_volume e =
     \<lparr>dev = boot_only_dev e, disk = [], bpb = geometry UFAT_TYPE_FAT16 16345, next_seq = 1,
      cache_size = 2,
      cache_desc = [\<lparr>index = 0, seq = 0, flags = {}\<rparr>,
                    \<lparr>index = 0, seq = 0, flags = {UFAT_CACHE_FLAG_PRESENT}\<rparr>],
      cache_data = (\<lambda>i. if i = 1 then boot_sector 0 65536 else []),
      stat = \<lparr>stat_read = 1, stat_write = 0, read_blocks = 1, write_blocks = 0,
              cache_hit = 0, cache_miss = 1\<rparr>\<rparr>"

text \<open>
  Disk contents with a FAT in block 4: \<open>fat_image16 lo hi\<close> holds the 16-bit entry with
  the bytes \<open>lo\<close>, \<open>hi\<close> for cluster 5, \<open>fat_image32 b0 b1 b2 b3\<close> the 32-bit entry
  with the bytes \<open>b0\<close> to \<open>b3\<close> for cluster 7.
\<close>

definition fat_image16 :: "byte \<Rightarrow> byte \<Rightarrow> 64 word \<Rightarrow> byte list" where
  "fat_image16 lo hi = (\<lambda>b. if b = 4 then replicate 10 0 @ [lo, hi] @ replicate 500 0
                             else replicate 512 0)"

definition fat_image32 :: "byte \<Rightarrow> byte \<Rightarrow> byte \<Rightarrow> byte \<Rightarrow> 64 word \<Rightarrow> byte list" where
  "fat_image32 b0 b1 b2 b3 =
     (\<lambda>b. if b = 4 then replicate 28 0 @ [b0, b1, b2, b3] @ replicate 480 0
           else replicate 512 0)"

text \<open>
  A FAT16 volume whose first slot holds block 5, a block of the first FAT, marked
  dirty by a caller that has changed it.
\<close>

definition dirty_fat_volume :: "(write_log, 64 word, 32 word) ufat" where
  "dirty_fat_volume =
     (fresh_volume (ram_dev (\<lambda>b. replicate 512 0)) (geometry UFAT_TYPE_FAT16 16345) 2)
       \<lparr>cache_desc := [\<lparr>index = 5, seq = 0,
                         flags = {UFAT_CACHE_FLAG_PRESENT, UFAT_CACHE_FLAG_DIRTY}\<rparr>,
                       \<lparr>index = 0, seq = 0, flags = {}\<rparr>],
        cache_data := (\<lambda>i. replicate 512 0xAB),
        next_seq := 1\<rparr>"

text \<open>
  The volume mounted on \<open>boot_only_dev (-1)\<close> after a caller has changed the cached
  boot sector and marked its slot dirty. The device fails every write.
\<close>

definition dirty_boot_volume :: "(write_log, 64 word, 32 word) ufat" where
  "dirty_boot_volume =
     (mounted_volume (-1))
       \<lparr>cache_desc := [\<lparr>index = 0, seq = 0, flags = {}\<rparr>,
                       \<lparr>index = 0, seq = 0,
                         flags = {UFAT_CACHE_FLAG_PRESENT, UFAT_CACHE_FLAG_DIRTY}\<rparr>]\<rparr>"

text \<open>
  The volume that \<^verbatim>\<open>ufat_open\<close> makes of \<open>fresh_volume small_dev g 0\<close> with the
  constants \<open>K0\<close>.
\<close>

definition small_volume :: "(write_log, 64 word, 32 word) ufat" where
  "small_volume =
     \<lparr>dev = small_dev, disk = [], bpb = geometry UFAT_TYPE_FAT16 16345, next_seq = 1,
      cache_size = 2,
      cache_desc = [\<lparr>index = 0, seq = 0, flags = {}\<rparr>,
                    \<lparr>index = 0, seq = 0, flags = {UFAT_CACHE_FLAG_PRESENT}\<rparr>],
      cache_data = (\<lambda>i. if i = 1 then boot_sector 0 65536 else []),
      stat = \<lparr>stat_read = 1, stat_write = 0, read_blocks = 1, write_blocks = 0,
              cache_hit = 0, cache_miss = 1\<rparr>\<rparr>"

section \<open>Properties\<close>

subsection \<open>Evaluation on the concrete volumes\<close>

lemma replicate_two: "replicate 2 x = [x, x]"
  by (simp add: numeral_2_eq_2)

lemma ex_less_two: "(\<exists>i<2. P i) \<longleftrightarrow> P 0 \<or> P (Suc 0)"
  by (auto simp: less_2_cases_iff)

lemma boot_sector_fields:
  "r16 (boot_sector t16 t32) 0x00b = 512"
  "boot_sector t16 t32 ! 0x00d = 4"
  "r16 (boot_sector t16 t32) 0x00e = 4"
  "boot_sector t16 t32 ! 0x010 = 2"
  "r16 (boot_sector t16 t32) 0x016 = 64"
  "r16 (boot_sector t16 t32) 0x011 = 512"
  "r16 (boot_sector t16 t32) 0x1fe = 0xaa55"
  by (simp_all add: boot_sector_def r16_def nth_append)

lemma boot_sector_total:
  "r16 (boot_sector 0 65536) 0x013 = 0"
  "r32 (boot_sector 0 65536) 0x020 = 65536"
  "r16 (boot_sector 100 0) 0x013 = 100"
  by (simp_all add: boot_sector_def r16_def r32_def nth_append)

lemma log2_exact_512: "log2_exact 512 = Some 9"
  by (simp add: log2_exact_def log2_loop.simps drop_bit_eq_div)

lemma log2_exact_4: "log2_exact 4 = Some 2"
  by (simp add: log2_exact_def log2_loop.simps drop_bit_eq_div)

text \<open>The mount of the volume on \<open>boot_only_dev e\<close>, and a read that fails after it.\<close>

lemma open_boot_only:
  "ufat_cache_open (fresh_volume (boot_only_dev e) g 2) 0 = (1, (mounted_volume e)\<lparr>bpb := g\<rparr>)"
  by (simp add: fresh_volume_def mounted_volume_def ufat_cache_open_def cache_scan.simps
      int_of_unsigned_def unsigned_of_int_def cache_read_in_def ufat_cache_data_def Let_def
      replicate_two boot_only_dev_def fun_eq_iff)

lemma parse_boot_sector:
  "parse_bpb 9 (geometry UFAT_TYPE_FAT12 0) (boot_sector 0 65536) =
     Some (0, geometry UFAT_TYPE_FAT16 16345)"
  by (simp add: parse_bpb_def boot_sector_fields boot_sector_total Let_def log2_exact_512
      log2_exact_4 UFAT_DIRENT_SIZE_def drop_bit_eq_div geometry_def UFAT_CLUSTER_MASK_def)

lemma ufat_open_boot_only:
  "ufat_open K0 (fresh_volume (boot_only_dev e) (geometry UFAT_TYPE_FAT12 0) 0)
     (boot_only_dev e) [] = Some (0, mounted_volume e)"
proof -
  have "ufat_open K0 (fresh_volume (boot_only_dev e) (geometry UFAT_TYPE_FAT12 0) 0)
          (boot_only_dev e) [] =
        read_bpb (fresh_volume (boot_only_dev e) (geometry UFAT_TYPE_FAT12 0) 2)"
    by (simp add: ufat_open_def K0_def Let_def drop_bit_eq_div boot_only_dev_def
        fresh_volume_def)
  also have "\<dots> = Some (0, mounted_volume e)"
    by (simp add: read_bpb_def open_boot_only unsigned_of_int_def)
       (simp add: mounted_volume_def ufat_cache_data_def boot_only_dev_def parse_boot_sector)
  finally show ?thesis .
qed

lemma open_mounted_fails_any:
  assumes "e < 0" and "blk \<noteq> 0"
  shows "fst (ufat_cache_open ((mounted_volume e)\<lparr>bpb := g\<rparr>) blk) = e"
    and "cache_size (snd (ufat_cache_open ((mounted_volume e)\<lparr>bpb := g\<rparr>) blk)) = 2"
    and "cache_desc (snd (ufat_cache_open ((mounted_volume e)\<lparr>bpb := g\<rparr>) blk)) =
      cache_desc (mounted_volume e)"
    and "stat (snd (ufat_cache_open ((mounted_volume e)\<lparr>bpb := g\<rparr>) blk)) =
      stat (mounted_volume e)"
  using assms
  by (simp_all add: mounted_volume_def ufat_cache_open_def cache_scan.simps
      int_of_unsigned_def unsigned_of_int_def cache_read_in_def ufat_cache_data_def Let_def
      boot_only_dev_def)

lemma open_mounted_fails:
  assumes "e < 0" and "blk \<noteq> 0"
  shows "fst (ufat_cache_open (mounted_volume e) blk) = e"
  using open_mounted_fails_any(1) [OF assms, of "bpb (mounted_volume e)"] by simp

text \<open>The mount of the volume on \<open>small_dev\<close>, and the unfolding of a call on it.\<close>

lemma open_small:
  "ufat_cache_open (fresh_volume small_dev g 2) 0 = (1, small_volume\<lparr>bpb := g\<rparr>)"
  by (simp add: fresh_volume_def small_volume_def ufat_cache_open_def cache_scan.simps
      int_of_unsigned_def unsigned_of_int_def cache_read_in_def ufat_cache_data_def Let_def
      replicate_two small_dev_def fun_eq_iff)

lemma ufat_open_small:
  "ufat_open K0 (fresh_volume small_dev (geometry UFAT_TYPE_FAT12 0) 0) small_dev [] =
     Some (0, small_volume)"
proof -
  have "ufat_open K0 (fresh_volume small_dev (geometry UFAT_TYPE_FAT12 0) 0) small_dev [] =
        read_bpb (fresh_volume small_dev (geometry UFAT_TYPE_FAT12 0) 2)"
    by (simp add: ufat_open_def K0_def Let_def drop_bit_eq_div small_dev_def fresh_volume_def)
  also have "\<dots> = Some (0, small_volume)"
    by (simp add: read_bpb_def open_small unsigned_of_int_def)
       (simp add: small_volume_def ufat_cache_data_def small_dev_def parse_boot_sector)
  finally show ?thesis .
qed

lemmas eval_open = ufat_cache_open_def cache_scan.simps cache_hit_slot_def cache_flush_def
  int_of_unsigned_def unsigned_of_int_def cache_read_in_def ufat_cache_data_def Let_def
  small_dev_def

text \<open>The first use of the cache of a volume on \<open>ram_dev img\<close>.\<close>

lemma open_fresh_ram:
  "fst (ufat_cache_open (fresh_volume (ram_dev img) g 2) blk) = 1"
  "ufat_cache_data (snd (ufat_cache_open (fresh_volume (ram_dev img) g 2) blk)) (unsigned_of_int 1)
     = img blk"
  by (simp_all add: fresh_volume_def ufat_cache_open_def cache_scan.simps
      int_of_unsigned_def unsigned_of_int_def cache_read_in_def ufat_cache_data_def Let_def
      replicate_two ram_dev_def)

subsection \<open>The effect of ufat_cache_open on the slots and the counters\<close>

lemma int_of_unsigned_small: "n < 2 ^ 31 \<Longrightarrow> int_of_unsigned n = int n"
proof -
  assume "n < 2 ^ 31"
  then have "int n < 2 ^ 31" by (metis of_nat_less_numeral_power_cancel_iff)
  then have "signed_take_bit 31 (int n) = int n"
    by (intro signed_take_bit_int_eq_self) auto
  then show ?thesis
    by (simp add: int_of_unsigned_def signed_of_nat)
qed

lemma unsigned_of_int_nat: "n < 2 ^ 31 \<Longrightarrow> unsigned_of_int (int n) = n"
  by (simp add: unsigned_of_int_def unat_of_nat)


lemma mirror_loop_effect:
  "\<exists>dk w wb. mirror_loop uf ci i b =
     uf\<lparr>disk := dk, stat := (stat uf)\<lparr>stat_write := w, write_blocks := wb\<rparr>\<rparr>"
proof (induction uf ci i b rule: mirror_loop.induct)
  case (1 uf ci i b)
  show ?case
  proof (cases "i < unat (fat_count (bpb uf))")
    case False
    then have "mirror_loop uf ci i b = uf"
      by (subst mirror_loop.simps) simp
    then have "mirror_loop uf ci i b = uf\<lparr>disk := disk uf,
        stat := (stat uf)\<lparr>stat_write := stat_write (stat uf),
                           write_blocks := write_blocks (stat uf)\<rparr>\<rparr>"
      by simp
    then show ?thesis by blast
  next
    case True
    obtain r dk where w: "dev_write (dev uf) (disk uf) (index (cache_desc uf ! ci)) 1
        (ufat_cache_data uf ci) = (r, dk)"
      by (cases "dev_write (dev uf) (disk uf) (index (cache_desc uf ! ci)) 1 (ufat_cache_data uf ci)")
    from "1.IH" [OF True refl refl refl w [symmetric]]
    obtain dk' w' wb' where
      "mirror_loop (count_write (uf\<lparr>disk := dk\<rparr>)) ci (Suc i) (b + fat_size (bpb uf)) =
        (count_write (uf\<lparr>disk := dk\<rparr>))\<lparr>disk := dk',
           stat := (stat (count_write (uf\<lparr>disk := dk\<rparr>)))\<lparr>stat_write := w', write_blocks := wb'\<rparr>\<rparr>"
      by blast
    then have "mirror_loop uf ci i b =
        uf\<lparr>disk := dk', stat := (stat uf)\<lparr>stat_write := w', write_blocks := wb'\<rparr>\<rparr>"
      using True w by (subst mirror_loop.simps) (simp add: Let_def count_write_def)
    then show ?thesis by blast
  qed
qed

lemma nth_list_update_same_field:
  "f v = f (xs ! k) \<Longrightarrow> f (xs[k := v] ! j) = f (xs ! j)"
  by (cases "k < length xs") (auto simp: nth_list_update list_update_beyond)

lemma cache_flush_effect:
  assumes "cache_flush uf k = (r, uf')"
  shows "cache_size uf' = cache_size uf \<and> length (cache_desc uf') = length (cache_desc uf) \<and>
         dev uf' = dev uf \<and> bpb uf' = bpb uf \<and> next_seq uf' = next_seq uf \<and>
         cache_data uf' = cache_data uf \<and>
         (\<forall>j. slot_present uf' j = slot_present uf j \<and> slot_index uf' j = slot_index uf j) \<and>
         cache_hit (stat uf') = cache_hit (stat uf) \<and>
         cache_miss (stat uf') = cache_miss (stat uf) \<and>
         (r = 0 \<or> r = - UFAT_ERR_IO)"
proof -
  let ?d = "cache_desc uf ! k"
  let ?d' = "?d\<lparr>flags := flags ?d - {UFAT_CACHE_FLAG_DIRTY}\<rparr>"
  obtain w dk where w: "dev_write (dev uf) (disk uf) (index ?d) 1 (ufat_cache_data uf k) = (w, dk)"
    by (cases "dev_write (dev uf) (disk uf) (index ?d) 1 (ufat_cache_data uf k)")
  obtain dk' c cb where m: "mirror_loop (count_write (uf\<lparr>disk := dk\<rparr>)) k 1 (index ?d) =
      (count_write (uf\<lparr>disk := dk\<rparr>))\<lparr>disk := dk',
         stat := (stat (count_write (uf\<lparr>disk := dk\<rparr>)))\<lparr>stat_write := c, write_blocks := cb\<rparr>\<rparr>"
    using mirror_loop_effect [of "count_write (uf\<lparr>disk := dk\<rparr>)" k 1 "index ?d"] by blast
  have p: "\<And>j. (UFAT_CACHE_FLAG_PRESENT \<in> flags ((cache_desc uf)[k := ?d'] ! j)) =
      (UFAT_CACHE_FLAG_PRESENT \<in> flags (cache_desc uf ! j))"
    by (rule nth_list_update_same_field) simp
  have i: "\<And>j. index ((cache_desc uf)[k := ?d'] ! j) = index (cache_desc uf ! j)"
    by (rule nth_list_update_same_field) simp
  from assms w m show ?thesis
    by (auto simp: cache_flush_def Let_def count_write_def slot_present_def slot_index_def p i
        split: if_splits)
qed

lemma cache_hit_slot_effect:
  assumes "cache_hit_slot uf k = (r, uf')" and "k < 2 ^ 31"
  shows "r = int k \<and> cache_size uf' = cache_size uf \<and>
         length (cache_desc uf') = length (cache_desc uf) \<and>
         dev uf' = dev uf \<and> bpb uf' = bpb uf \<and> disk uf' = disk uf \<and>
         cache_data uf' = cache_data uf \<and>
         (\<forall>j. slot_present uf' j = slot_present uf j \<and> slot_index uf' j = slot_index uf j) \<and>
         cache_hit (stat uf') = cache_hit (stat uf) + 1 \<and>
         cache_miss (stat uf') = cache_miss (stat uf)"
proof -
  let ?d = "cache_desc uf ! k"
  let ?d' = "?d\<lparr>seq := next_seq uf\<rparr>"
  have p: "\<And>j. (UFAT_CACHE_FLAG_PRESENT \<in> flags ((cache_desc uf)[k := ?d'] ! j)) =
      (UFAT_CACHE_FLAG_PRESENT \<in> flags (cache_desc uf ! j))"
    by (rule nth_list_update_same_field) simp
  have i: "\<And>j. index ((cache_desc uf)[k := ?d'] ! j) = index (cache_desc uf ! j)"
    by (rule nth_list_update_same_field) simp
  from assms show ?thesis
    by (auto simp: cache_hit_slot_def Let_def slot_present_def slot_index_def p i
        int_of_unsigned_small)
qed

lemma cache_read_in_effect:
  assumes "cache_read_in uf blk k = (r, uf')" and "k < length (cache_desc uf)" and "k < 2 ^ 31"
  shows "cache_size uf' = cache_size uf \<and> length (cache_desc uf') = length (cache_desc uf) \<and>
         dev uf' = dev uf \<and> bpb uf' = bpb uf \<and>
         (\<forall>j. j \<noteq> k \<longrightarrow> slot_present uf' j = slot_present uf j \<and> slot_index uf' j = slot_index uf j) \<and>
         (\<exists>buf dk. dev_read (dev uf) (disk uf) blk 1 (ufat_cache_data uf k) = (fst (dev_read (dev uf) (disk uf) blk 1 (ufat_cache_data uf k)), buf, dk) \<and>
            disk uf' = dk \<and> ufat_cache_data uf' k = buf) \<and>
         (if fst (dev_read (dev uf) (disk uf) blk 1 (ufat_cache_data uf k)) < 0
          then r = fst (dev_read (dev uf) (disk uf) blk 1 (ufat_cache_data uf k)) \<and>
               \<not> slot_present uf' k \<and>
               cache_hit (stat uf') = cache_hit (stat uf) \<and>
               cache_miss (stat uf') = cache_miss (stat uf)
          else r = int k \<and> slot_present uf' k \<and> slot_index uf' k = blk \<and>
               cache_hit (stat uf') = cache_hit (stat uf) \<and>
               cache_miss (stat uf') = cache_miss (stat uf) + 1)"
proof -
  obtain e buf dk where rd: "dev_read (dev uf) (disk uf) blk 1 (ufat_cache_data uf k) = (e, buf, dk)"
    by (cases "dev_read (dev uf) (disk uf) blk 1 (ufat_cache_data uf k)")
  from assms rd show ?thesis
    by (auto simp: cache_read_in_def Let_def slot_present_def slot_index_def
        int_of_unsigned_small ufat_cache_data_def split: if_splits)
qed

lemma cache_scan_Inl:
  "cache_scan uf blk i oldest free age = Inl k \<Longrightarrow>
     i \<le> k \<and> k < cache_size uf \<and> slot_present uf k \<and> slot_index uf k = blk"
proof (induction uf blk i oldest free age rule: cache_scan.induct)
  case (1 uf blk i oldest free age)
  note unfold = cache_scan.simps [of uf blk i oldest free age]
  show ?case
  proof (cases "i < cache_size uf")
    case False
    with "1.prems" show ?thesis by (simp add: unfold)
  next
    case True
    let ?d = "cache_desc uf ! i"
    show ?thesis
    proof (cases "UFAT_CACHE_FLAG_PRESENT \<in> flags ?d \<and> index ?d = blk")
      case hit: True
      with True "1.prems" have "k = i"
        by (simp add: unfold Let_def)
      with hit True show ?thesis by (simp add: slot_present_def slot_index_def)
    next
      case miss: False
      from True miss "1.prems" "1.IH"
      have "Suc i \<le> k \<and> k < cache_size uf \<and> slot_present uf k \<and> slot_index uf k = blk"
        by (auto simp: unfold Let_def split: if_splits)
      then show ?thesis by simp
    qed
  qed
qed

lemma cache_scan_Inr:
  assumes "cache_scan uf blk i oldest free age = Inr (old, fr)"
    and "cache_size uf < 2 ^ 31"
  shows "(\<forall>k. i \<le> k \<and> k < cache_size uf \<longrightarrow> \<not> (slot_present uf k \<and> slot_index uf k = blk)) \<and>
         ((fr = free \<and> (\<forall>k. i \<le> k \<and> k < cache_size uf \<longrightarrow> slot_present uf k)) \<or>
          (\<exists>k. i \<le> k \<and> k < cache_size uf \<and> fr = int k \<and> \<not> slot_present uf k)) \<and>
         ((old = oldest \<and> (i < cache_size uf \<longrightarrow> 0 \<le> oldest)) \<or>
          (\<exists>k. i \<le> k \<and> k < cache_size uf \<and> old = int k))"
  using assms
proof (induction uf blk i oldest free age rule: cache_scan.induct)
  case (1 uf blk i oldest free age)
  note unfold = cache_scan.simps [of uf blk i oldest free age]
  show ?case
  proof (cases "i < cache_size uf")
    case False
    with "1.prems" show ?thesis by (auto simp: unfold)
  next
    case True
    let ?d = "cache_desc uf ! i"
    have conv: "int_of_unsigned i = int i"
      using True "1.prems"(2) by (intro int_of_unsigned_small) simp
    from True "1.prems" have miss: "\<not> (UFAT_CACHE_FLAG_PRESENT \<in> flags ?d \<and> index ?d = blk)"
      by (auto simp: unfold Let_def)
    let ?free' = "if UFAT_CACHE_FLAG_PRESENT \<notin> flags ?d then int i else free"
    let ?upd = "oldest < 0 \<or> oldest_age < next_seq uf - seq ?d"
    obtain o' a' where
      eq: "cache_scan uf blk (Suc i) o' ?free' a' = Inr (old, fr)"
      and o': "o' = int i \<or> (o' = oldest \<and> 0 \<le> oldest)"
      and ih: "cache_scan uf blk (Suc i) o' ?free' a' = Inr (old, fr) \<Longrightarrow> cache_size uf < 2 ^ 31 \<Longrightarrow>
         (\<forall>k. Suc i \<le> k \<and> k < cache_size uf \<longrightarrow> \<not> (slot_present uf k \<and> slot_index uf k = blk)) \<and>
         ((fr = ?free' \<and> (\<forall>k. Suc i \<le> k \<and> k < cache_size uf \<longrightarrow> slot_present uf k)) \<or>
          (\<exists>k. Suc i \<le> k \<and> k < cache_size uf \<and> fr = int k \<and> \<not> slot_present uf k)) \<and>
         ((old = o' \<and> (Suc i < cache_size uf \<longrightarrow> 0 \<le> o')) \<or>
          (\<exists>k. Suc i \<le> k \<and> k < cache_size uf \<and> old = int k))"
    proof (cases "oldest < 0 \<or> age < next_seq uf - seq ?d")
      case True
      show ?thesis
        apply (rule that [of "int i" "next_seq uf - seq ?d"])
        using True \<open>i < cache_size uf\<close> miss "1.prems" "1.IH"(1) [OF \<open>i < cache_size uf\<close> refl refl _ refl]
        by (auto simp: unfold Let_def conv)
    next
      case False
      show ?thesis
        apply (rule that [of oldest age])
        using False \<open>i < cache_size uf\<close> miss "1.prems" "1.IH"(2) [OF \<open>i < cache_size uf\<close> refl refl _ refl]
        by (auto simp: unfold Let_def conv)
    qed
    from ih [OF eq "1.prems"(2)] have
      A: "\<forall>k. Suc i \<le> k \<and> k < cache_size uf \<longrightarrow> \<not> (slot_present uf k \<and> slot_index uf k = blk)" and
      B: "(fr = ?free' \<and> (\<forall>k. Suc i \<le> k \<and> k < cache_size uf \<longrightarrow> slot_present uf k)) \<or>
          (\<exists>k. Suc i \<le> k \<and> k < cache_size uf \<and> fr = int k \<and> \<not> slot_present uf k)" and
      C: "(old = o' \<and> (Suc i < cache_size uf \<longrightarrow> 0 \<le> o')) \<or>
          (\<exists>k. Suc i \<le> k \<and> k < cache_size uf \<and> old = int k)"
      by blast+
    have A': "\<forall>k. i \<le> k \<and> k < cache_size uf \<longrightarrow> \<not> (slot_present uf k \<and> slot_index uf k = blk)"
    proof (intro allI impI)
      fix k assume "i \<le> k \<and> k < cache_size uf"
      then consider "k = i" | "Suc i \<le> k \<and> k < cache_size uf" by linarith
      then show "\<not> (slot_present uf k \<and> slot_index uf k = blk)"
        using miss A by cases (auto simp: slot_present_def slot_index_def)
    qed
    have B': "(fr = free \<and> (\<forall>k. i \<le> k \<and> k < cache_size uf \<longrightarrow> slot_present uf k)) \<or>
          (\<exists>k. i \<le> k \<and> k < cache_size uf \<and> fr = int k \<and> \<not> slot_present uf k)"
    proof (cases "UFAT_CACHE_FLAG_PRESENT \<in> flags ?d")
      case pres: True
      from B show ?thesis
      proof
        assume "fr = ?free' \<and> (\<forall>k. Suc i \<le> k \<and> k < cache_size uf \<longrightarrow> slot_present uf k)"
        with pres have "fr = free" and rest: "\<forall>k. Suc i \<le> k \<and> k < cache_size uf \<longrightarrow> slot_present uf k"
          by auto
        have "\<forall>k. i \<le> k \<and> k < cache_size uf \<longrightarrow> slot_present uf k"
        proof (intro allI impI)
          fix k assume "i \<le> k \<and> k < cache_size uf"
          then consider "k = i" | "Suc i \<le> k \<and> k < cache_size uf" by linarith
          then show "slot_present uf k"
            using pres rest by cases (auto simp: slot_present_def)
        qed
        with \<open>fr = free\<close> show ?thesis by blast
      next
        assume "\<exists>k. Suc i \<le> k \<and> k < cache_size uf \<and> fr = int k \<and> \<not> slot_present uf k"
        then show ?thesis using Suc_leD by blast
      qed
    next
      case npres: False
      from B show ?thesis
      proof
        assume "fr = ?free' \<and> (\<forall>k. Suc i \<le> k \<and> k < cache_size uf \<longrightarrow> slot_present uf k)"
        with npres have "fr = int i" by simp
        with npres True have "i \<le> i \<and> i < cache_size uf \<and> fr = int i \<and> \<not> slot_present uf i"
          by (simp add: slot_present_def)
        then show ?thesis by blast
      next
        assume "\<exists>k. Suc i \<le> k \<and> k < cache_size uf \<and> fr = int k \<and> \<not> slot_present uf k"
        then show ?thesis using Suc_leD by blast
      qed
    qed
    have C': "(old = oldest \<and> (i < cache_size uf \<longrightarrow> 0 \<le> oldest)) \<or>
          (\<exists>k. i \<le> k \<and> k < cache_size uf \<and> old = int k)"
      using C
    proof
      assume "old = o' \<and> (Suc i < cache_size uf \<longrightarrow> 0 \<le> o')"
      with o' True show ?thesis by auto
    next
      assume "\<exists>k. Suc i \<le> k \<and> k < cache_size uf \<and> old = int k"
      then show ?thesis using Suc_leD by blast
    qed
    from A' B' C' show ?thesis by blast
  qed
qed


lemma ufat_cache_open_cases:
  assumes ok: "cache_ok uf" and op: "ufat_cache_open uf blk = (r, uf')"
  shows "(cache_size uf' = cache_size uf \<and> length (cache_desc uf') = length (cache_desc uf) \<and>
     dev uf' = dev uf \<and> bpb uf' = bpb uf) \<and>
    ((\<exists>k < cache_size uf. r = int k \<and> slot_present uf k \<and> slot_index uf k = blk \<and>
        (\<forall>j. slot_present uf' j = slot_present uf j \<and> slot_index uf' j = slot_index uf j) \<and>
        cache_hit (stat uf') = cache_hit (stat uf) + 1 \<and>
        cache_miss (stat uf') = cache_miss (stat uf)) \<or>
     (\<exists>k < cache_size uf. r = int k \<and> \<not> blk_present uf blk \<and>
        (\<forall>j. j \<noteq> k \<longrightarrow> slot_present uf' j = slot_present uf j \<and> slot_index uf' j = slot_index uf j) \<and>
        slot_present uf' k \<and> slot_index uf' k = blk \<and>
        cache_hit (stat uf') = cache_hit (stat uf) \<and>
        cache_miss (stat uf') = cache_miss (stat uf) + 1) \<or>
     (r < 0 \<and> \<not> blk_present uf blk \<and>
        (\<forall>j. slot_present uf' j \<longrightarrow> slot_present uf j) \<and>
        (\<forall>j. slot_present uf' j \<longrightarrow> slot_index uf' j = slot_index uf j) \<and>
        cache_hit (stat uf') = cache_hit (stat uf) \<and>
        cache_miss (stat uf') = cache_miss (stat uf) \<and>
        (r = - UFAT_ERR_IO \<or> (\<exists>st buf. r = fst (dev_read (dev uf) st blk 1 buf)))))"
    (is "?frame \<and> (?hit \<or> ?miss \<or> ?fail)")
proof -
  from ok have cs: "0 < cache_size uf" "cache_size uf \<le> length (cache_desc uf)"
    "cache_size uf < 2 ^ 31"
    by (simp_all add: cache_ok_def)
  have miss_case: ?thesis
    if nb: "\<not> blk_present uf blk" and k: "k < cache_size uf"
      and st: "cache_size uf1 = cache_size uf" "length (cache_desc uf1) = length (cache_desc uf)"
        "dev uf1 = dev uf" "bpb uf1 = bpb uf"
        "\<forall>j. slot_present uf1 j = slot_present uf j \<and> slot_index uf1 j = slot_index uf j"
        "cache_hit (stat uf1) = cache_hit (stat uf)" "cache_miss (stat uf1) = cache_miss (stat uf)"
      and rd: "cache_read_in uf1 blk k = (r, uf')"
    for k uf1
  proof -
    from k cs st have k1: "k < length (cache_desc uf1)" "k < 2 ^ 31" by simp_all
    note eff = cache_read_in_effect [OF rd k1]
    let ?e = "fst (dev_read (dev uf1) (disk uf1) blk 1 (ufat_cache_data uf1 k))"
    show ?thesis
    proof (cases "?e < 0")
      case True
      with eff st have "r < 0" "r = fst (dev_read (dev uf) (disk uf1) blk 1 (ufat_cache_data uf1 k))"
        "\<not> slot_present uf' k"
        "cache_hit (stat uf') = cache_hit (stat uf)" "cache_miss (stat uf') = cache_miss (stat uf)"
        by auto
      moreover from eff st True have "\<forall>j. slot_present uf' j \<longrightarrow> slot_present uf j"
        "\<forall>j. slot_present uf' j \<longrightarrow> slot_index uf' j = slot_index uf j"
        by metis+
      ultimately have ?fail using nb by blast
      moreover from eff st have ?frame by simp
      ultimately show ?thesis by blast
    next
      case False
      with eff st have "r = int k" "slot_present uf' k" "slot_index uf' k = blk"
        "cache_hit (stat uf') = cache_hit (stat uf)"
        "cache_miss (stat uf') = cache_miss (stat uf) + 1"
        by auto
      moreover from eff st have
        "\<forall>j. j \<noteq> k \<longrightarrow> slot_present uf' j = slot_present uf j \<and> slot_index uf' j = slot_index uf j"
        by simp
      ultimately have ?miss using nb k by blast
      moreover from eff st have ?frame by simp
      ultimately show ?thesis by blast
    qed
  qed
  show ?thesis
  proof (cases "cache_scan uf blk 0 (-1) (-1) 0")
    case (Inl k)
    from cache_scan_Inl [OF Inl] have k: "k < cache_size uf" "slot_present uf k" "slot_index uf k = blk"
      by simp_all
    from op Inl have "cache_hit_slot uf k = (r, uf')"
      by (simp add: ufat_cache_open_def)
    from cache_hit_slot_effect [OF this] k cs have ?frame and ?hit
      by auto
    then show ?thesis by blast
  next
    case (Inr p)
    obtain old fr where p: "p = (old, fr)" by (cases p)
    note scan = cache_scan_Inr [OF Inr [unfolded p] cs(3)]
    from scan have nb: "\<not> blk_present uf blk"
      by (auto simp: blk_present_def)
    from scan cs(1) obtain ko where ko: "ko < cache_size uf" "old = int ko"
      by auto
    show ?thesis
    proof (cases "0 \<le> fr")
      case True
      with scan obtain k where k: "k < cache_size uf" "fr = int k"
        by auto
      with cs have "unsigned_of_int fr = k"
        by (simp add: unsigned_of_int_nat)
      with op Inr p True have "cache_read_in uf blk k = (r, uf')"
        by (simp add: ufat_cache_open_def)
      with nb k show ?thesis
        by (intro miss_case [of k uf]) simp_all
    next
      case False
      from ko cs have conv: "unsigned_of_int old = ko"
        by (simp add: unsigned_of_int_nat)
      obtain e uf1 where fl: "cache_flush uf ko = (e, uf1)"
        by (cases "cache_flush uf ko")
      note feff = cache_flush_effect [OF fl]
      show ?thesis
      proof (cases "e < 0")
        case True
        with op Inr p False conv fl have "r = e" "uf' = uf1"
          by (simp_all add: ufat_cache_open_def)
        with True feff nb have ?frame and ?fail
          by auto
        then show ?thesis by blast
      next
        case nf: False
        with op Inr p False conv fl have "cache_read_in uf1 blk ko = (r, uf')"
          by (simp add: ufat_cache_open_def)
        with nb ko feff show ?thesis
          by (intro miss_case [of ko uf1]) simp_all
      qed
    qed
  qed
qed


lemma ufat_cache_open_ok:
  assumes "cache_ok uf"
  shows "cache_ok (snd (ufat_cache_open uf b))"
proof -
  obtain r uf' where op: "ufat_cache_open uf b = (r, uf')"
    by (cases "ufat_cache_open uf b")
  from ufat_cache_open_cases [OF assms op] assms show ?thesis
    by (simp add: op cache_ok_def)
qed

lemma ufat_cache_open_unique:
  assumes ok: "cache_ok uf" and un: "cache_unique uf"
  shows "cache_unique (snd (ufat_cache_open uf b))"
proof -
  obtain r uf' where op: "ufat_cache_open uf b = (r, uf')"
    by (cases "ufat_cache_open uf b")
  note c = ufat_cache_open_cases [OF ok op]
  then have sz: "cache_size uf' = cache_size uf" by simp
  from c consider
    (hit) "\<forall>j. slot_present uf' j = slot_present uf j \<and> slot_index uf' j = slot_index uf j"
  | (miss) k where "k < cache_size uf" "\<not> blk_present uf b"
      "\<forall>j. j \<noteq> k \<longrightarrow> slot_present uf' j = slot_present uf j \<and> slot_index uf' j = slot_index uf j"
      "slot_index uf' k = b"
  | (fail) "\<forall>j. slot_present uf' j \<longrightarrow> slot_present uf j"
      "\<forall>j. slot_present uf' j \<longrightarrow> slot_index uf' j = slot_index uf j"
    by blast
  then have "cache_unique uf'"
  proof cases
    case hit
    with un sz show ?thesis by (simp add: cache_unique_def)
  next
    case miss
    show ?thesis
      unfolding cache_unique_def sz
    proof (intro allI impI)
      fix i j
      assume i: "i < cache_size uf" and j: "j < cache_size uf"
        and h: "i \<noteq> j \<and> slot_present uf' i \<and> slot_present uf' j"
      show "slot_index uf' i \<noteq> slot_index uf' j"
      proof (cases "i = k \<or> j = k")
        case False
        with miss(3) h have "slot_present uf i" "slot_present uf j"
          "slot_index uf' i = slot_index uf i" "slot_index uf' j = slot_index uf j"
          by simp_all
        with un i j h show ?thesis by (simp add: cache_unique_def)
      next
        case True
        then obtain m where m: "m \<noteq> k" "m < cache_size uf" "slot_present uf' m"
          "{i, j} = {k, m}"
          using i j h by (metis doubleton_eq_iff)
        with miss(3) have "slot_present uf m" "slot_index uf' m = slot_index uf m"
          by simp_all
        with miss(2) m(2) have "slot_index uf' m \<noteq> b"
          by (auto simp: blk_present_def)
        with miss(4) m(4) show ?thesis
          by (metis doubleton_eq_iff)
      qed
    qed
  next
    case fail
    show ?thesis
      unfolding cache_unique_def sz
    proof (intro allI impI)
      fix i j
      assume i: "i < cache_size uf" and j: "j < cache_size uf"
        and h: "i \<noteq> j \<and> slot_present uf' i \<and> slot_present uf' j"
      with fail have "slot_present uf i" "slot_present uf j"
        "slot_index uf' i = slot_index uf i" "slot_index uf' j = slot_index uf j"
        by simp_all
      with un i j h show "slot_index uf' i \<noteq> slot_index uf' j"
        by (simp add: cache_unique_def)
    qed
  qed
  then show ?thesis by (simp add: op)
qed

lemma ufat_cache_open_present:
  assumes ok: "cache_ok uf" and served: "0 \<le> fst (ufat_cache_open uf b)"
  shows "blk_present (snd (ufat_cache_open uf b)) b"
proof -
  obtain r uf' where op: "ufat_cache_open uf b = (r, uf')"
    by (cases "ufat_cache_open uf b")
  from served op have "0 \<le> r" by simp
  with ufat_cache_open_cases [OF ok op] have "blk_present uf' b"
    unfolding blk_present_def by (elim conjE disjE) auto
  then show ?thesis by (simp add: op)
qed

lemma ufat_cache_open_counters:
  assumes ok: "cache_ok uf"
  shows "cache_hit (stat (snd (ufat_cache_open uf b))) + cache_miss (stat (snd (ufat_cache_open uf b))) =
         cache_hit (stat uf) + cache_miss (stat uf) +
         (if 0 \<le> fst (ufat_cache_open uf b) then 1 else 0)"
proof -
  obtain r uf' where op: "ufat_cache_open uf b = (r, uf')"
    by (cases "ufat_cache_open uf b")
  from ufat_cache_open_cases [OF ok op] show ?thesis
    unfolding op by (elim conjE disjE exE) auto
qed

lemma ufat_cache_open_absent:
  assumes ok: "cache_ok uf" and failed: "fst (ufat_cache_open uf b) < 0"
  shows "\<not> blk_present (snd (ufat_cache_open uf b)) b"
proof -
  obtain r uf' where op: "ufat_cache_open uf b = (r, uf')"
    by (cases "ufat_cache_open uf b")
  from failed op have r: "r < 0" by simp
  note c = ufat_cache_open_cases [OF ok op]
  from c have sz: "cache_size uf' = cache_size uf" by simp
  from c r have nb: "\<not> blk_present uf b"
    and sub: "\<forall>j. slot_present uf' j \<longrightarrow> slot_present uf j"
      "\<forall>j. slot_present uf' j \<longrightarrow> slot_index uf' j = slot_index uf j"
    by auto
  have "\<not> blk_present uf' b"
  proof
    assume "blk_present uf' b"
    then obtain i where "i < cache_size uf" "slot_present uf' i" "slot_index uf' i = b"
      unfolding blk_present_def sz by blast
    with sub have "i < cache_size uf \<and> slot_present uf i \<and> slot_index uf i = b"
      by simp
    with nb show False
      unfolding blk_present_def by blast
  qed
  then show ?thesis by (simp add: op)
qed

lemma ufat_cache_open_failed_counters:
  assumes ok: "cache_ok uf" and failed: "fst (ufat_cache_open uf b) < 0"
  shows "cache_hit (stat (snd (ufat_cache_open uf b))) = cache_hit (stat uf) \<and>
         cache_miss (stat (snd (ufat_cache_open uf b))) = cache_miss (stat uf)"
proof -
  obtain r uf' where op: "ufat_cache_open uf b = (r, uf')"
    by (cases "ufat_cache_open uf b")
  from failed op have r: "r < 0" by simp
  from ufat_cache_open_cases [OF ok op] r show ?thesis
    unfolding op by auto
qed

lemma cache_opens_ok: "cache_ok uf \<Longrightarrow> cache_ok (cache_opens uf bs)"
  by (induction bs arbitrary: uf) (simp_all add: ufat_cache_open_ok)

lemma cache_opens_unique:
  "cache_ok uf \<Longrightarrow> cache_unique uf \<Longrightarrow> cache_unique (cache_opens uf bs)"
  by (induction bs arbitrary: uf) (simp_all add: ufat_cache_open_ok ufat_cache_open_unique)

lemma cache_opens_size: "cache_ok uf \<Longrightarrow> cache_size (cache_opens uf bs) = cache_size uf"
proof (induction bs arbitrary: uf)
  case Nil
  show ?case by simp
next
  case (Cons b bs)
  obtain r uf' where op: "ufat_cache_open uf b = (r, uf')"
    by (cases "ufat_cache_open uf b")
  from ufat_cache_open_cases [OF Cons.prems op] have "cache_size uf' = cache_size uf"
    by simp
  with Cons.IH [of uf'] ufat_cache_open_ok [OF Cons.prems, of b] op show ?case
    by simp
qed

lemma cache_opens_counters:
  assumes "cache_ok uf"
  shows "cache_hit (stat (cache_opens uf bs)) + cache_miss (stat (cache_opens uf bs)) =
         cache_hit (stat uf) + cache_miss (stat uf) + of_nat (opens_served uf bs)"
  using assms
proof (induction bs arbitrary: uf)
  case Nil
  show ?case by simp
next
  case (Cons b bs)
  from Cons.IH [OF ufat_cache_open_ok [OF Cons.prems, of b]]
    ufat_cache_open_counters [OF Cons.prems, of b]
  show ?case by (simp add: algebra_simps)
qed

lemma card_present_le: "card {b. blk_present uf b} \<le> cache_size uf"
proof -
  have "{b. blk_present uf b} \<subseteq> slot_index uf ` {..<cache_size uf}"
    by (auto simp: blk_present_def)
  then have "card {b. blk_present uf b} \<le> card (slot_index uf ` {..<cache_size uf})"
    by (intro card_mono) simp_all
  also have "\<dots> \<le> card {..<cache_size uf}"
    by (rule card_image_le) simp
  finally show ?thesis by simp
qed

subsection \<open>The volume after ufat_open\<close>

text \<open>
  A mount that succeeds leaves a volume with \<open>cache_ok\<close> on a device whose blocks have
  at least 512 bytes, when \<^verbatim>\<open>UFAT_CACHE_MAX_BLOCKS\<close> fits an \<^verbatim>\<open>int\<close>.
\<close>

lemma parse_bpb_block_size:
  assumes "parse_bpb l ufb bs = Some (r, ufb')" and "0 \<le> r"
  shows "9 \<le> l"
proof (rule ccontr)
  assume "\<not> 9 \<le> l"
  then have "l < 9" by simp
  with assms show False
    by (simp add: parse_bpb_def Let_def UFAT_ERR_BLOCK_SIZE_def split: if_splits)
qed

lemma ufat_open_mounted:
  assumes op: "ufat_open K uf device dk = Some (r, uf')" and r: "0 \<le> r"
    and slots: "UFAT_CACHE_MAX_BLOCKS K < 2 ^ 31"
  shows "cache_ok uf' \<and> 9 \<le> log2_block_size (dev uf')"
proof -
  define n where "n = min (drop_bit (log2_block_size device) (UFAT_CACHE_BYTES K))
      (UFAT_CACHE_MAX_BLOCKS K)"
  define uf2 :: "('a, 'b word, 'c word) ufat" where
    "uf2 = uf\<lparr>dev := device, disk := dk, next_seq := 0, cache_size := n,
              stat := \<lparr>stat_read = 0, stat_write = 0, read_blocks = 0,
                       write_blocks = 0, cache_hit = 0, cache_miss = 0\<rparr>,
              cache_desc := replicate (UFAT_CACHE_MAX_BLOCKS K) \<lparr>index = 0, seq = 0, flags = {}\<rparr>\<rparr>"
  have n: "0 < n"
  proof (rule ccontr)
    assume "\<not> 0 < n"
    with op r show False
      by (auto simp: ufat_open_def Let_def n_def min_def UFAT_ERR_BLOCK_SIZE_def split: if_splits)
  qed
  with op have rb: "read_bpb uf2 = Some (r, uf')"
    by (auto simp: ufat_open_def Let_def n_def uf2_def min_def split: if_splits)
  from n slots have ok2: "cache_ok uf2"
    by (simp add: cache_ok_def uf2_def n_def)
  obtain idx uf3 where o: "ufat_cache_open uf2 0 = (idx, uf3)"
    by (cases "ufat_cache_open uf2 0")
  from ufat_cache_open_ok [OF ok2, of 0] o have ok3: "cache_ok uf3"
    by simp
  from rb o r have idx: "\<not> idx < 0"
    by (auto simp: read_bpb_def split: if_splits)
  with rb o obtain ufb where
    p: "parse_bpb (log2_block_size (dev uf3)) (bpb uf3)
          (ufat_cache_data uf3 (unsigned_of_int idx)) = Some (r, ufb)"
    and uf': "uf' = uf3\<lparr>bpb := ufb\<rparr>"
    by (auto simp: read_bpb_def split: option.splits)
  from parse_bpb_block_size [OF p r] ok3 uf' show ?thesis
    by (simp add: cache_ok_def)
qed

lemma ufat_open_counters:
  assumes op: "ufat_open K uf device dk = Some (r, uf')" and r: "0 \<le> r"
    and slots: "UFAT_CACHE_MAX_BLOCKS K < 2 ^ 31"
  shows "cache_hit (stat uf') = 0 \<and> cache_miss (stat uf') = 1"
proof -
  define n where "n = min (drop_bit (log2_block_size device) (UFAT_CACHE_BYTES K))
      (UFAT_CACHE_MAX_BLOCKS K)"
  define uf2 :: "('a, 'b word, 'c word) ufat" where
    "uf2 = uf\<lparr>dev := device, disk := dk, next_seq := 0, cache_size := n,
              stat := \<lparr>stat_read = 0, stat_write = 0, read_blocks = 0,
                       write_blocks = 0, cache_hit = 0, cache_miss = 0\<rparr>,
              cache_desc := replicate (UFAT_CACHE_MAX_BLOCKS K) \<lparr>index = 0, seq = 0, flags = {}\<rparr>\<rparr>"
  have n: "0 < n"
  proof (rule ccontr)
    assume "\<not> 0 < n"
    with op r show False
      by (auto simp: ufat_open_def Let_def n_def min_def UFAT_ERR_BLOCK_SIZE_def split: if_splits)
  qed
  with op have rb: "read_bpb uf2 = Some (r, uf')"
    by (auto simp: ufat_open_def Let_def n_def uf2_def min_def split: if_splits)
  from n slots have ok2: "cache_ok uf2"
    by (simp add: cache_ok_def uf2_def n_def)
  have empty: "\<not> slot_present uf2 k" if "k < cache_size uf2" for k
    using that n by (simp add: slot_present_def uf2_def n_def)
  have zero: "cache_hit (stat uf2) = 0" "cache_miss (stat uf2) = 0"
    by (simp_all add: uf2_def)
  obtain idx uf3 where o: "ufat_cache_open uf2 0 = (idx, uf3)"
    by (cases "ufat_cache_open uf2 0")
  from rb o r have idx: "\<not> idx < 0"
    by (auto simp: read_bpb_def split: if_splits)
  with rb o obtain ufb where uf': "uf' = uf3\<lparr>bpb := ufb\<rparr>"
    by (auto simp: read_bpb_def split: option.splits)
  from ufat_cache_open_cases [OF ok2 o] idx empty zero
  have "cache_hit (stat uf3) = 0 \<and> cache_miss (stat uf3) = 1"
    by auto
  with uf' show ?thesis by simp
qed

subsection \<open>The cache invariant\<close>

text \<open>
  C3 (as amended). Start from a cache with no slot in use, on a volume as \<^verbatim>\<open>ufat_open\<close>
  sets it up, and make any run of calls of \<^verbatim>\<open>ufat_cache_open\<close>. Afterwards no two
  slots marked PRESENT hold the same block index and at most \<open>cache_size\<close> distinct
  block indices are present. A further call for a block \<open>b\<close> that returns a slot (a
  result that is not negative) leaves \<open>b\<close> PRESENT in some slot, and one that fails (a
  negative result) leaves \<open>b\<close> PRESENT in no slot.
\<close>

theorem cache_open_invariant:
  assumes "cache_ok uf0" and "cache_empty uf0"
  shows "cache_unique (cache_opens uf0 bs) \<and>
         card {b. blk_present (cache_opens uf0 bs) b} \<le> cache_size uf0 \<and>
         (\<forall>b. 0 \<le> fst (ufat_cache_open (cache_opens uf0 bs) b) \<longrightarrow>
              blk_present (snd (ufat_cache_open (cache_opens uf0 bs) b)) b) \<and>
         (\<forall>b. fst (ufat_cache_open (cache_opens uf0 bs) b) < 0 \<longrightarrow>
              \<not> blk_present (snd (ufat_cache_open (cache_opens uf0 bs) b)) b)"
proof -
  from assms(2) have "cache_unique uf0"
    by (simp add: cache_empty_def cache_unique_def)
  with assms(1) have "cache_unique (cache_opens uf0 bs)"
    by (rule cache_opens_unique)
  moreover have "card {b. blk_present (cache_opens uf0 bs) b} \<le> cache_size uf0"
    using card_present_le [of "cache_opens uf0 bs"] cache_opens_size [OF assms(1), of bs]
    by simp
  moreover have "\<forall>b. 0 \<le> fst (ufat_cache_open (cache_opens uf0 bs) b) \<longrightarrow>
      blk_present (snd (ufat_cache_open (cache_opens uf0 bs) b)) b"
    using ufat_cache_open_present [OF cache_opens_ok [OF assms(1)]] by blast
  moreover have "\<forall>b. fst (ufat_cache_open (cache_opens uf0 bs) b) < 0 \<longrightarrow>
      \<not> blk_present (snd (ufat_cache_open (cache_opens uf0 bs) b)) b"
    using ufat_cache_open_absent [OF cache_opens_ok [OF assms(1)]] by blast
  ultimately show ?thesis by blast
qed

text \<open>
  On the volume with two free slots on \<open>small_dev\<close>, after the calls for the blocks 1
  and 2: the call for block 3 returns slot 1, which held block 1, and the blocks
  present are then 2 and 3; the call for block 9 fails and block 9 is in no slot.
\<close>

theorem cache_open_invariant_witness:
  "cache_unique (cache_opens (fresh_volume small_dev (geometry UFAT_TYPE_FAT16 16345) 2) [1, 2]) \<and>
   card {b. blk_present
     (cache_opens (fresh_volume small_dev (geometry UFAT_TYPE_FAT16 16345) 2) [1, 2]) b} \<le> 2 \<and>
   fst (ufat_cache_open
     (cache_opens (fresh_volume small_dev (geometry UFAT_TYPE_FAT16 16345) 2) [1, 2]) 3) = 1 \<and>
   blk_present (snd (ufat_cache_open
     (cache_opens (fresh_volume small_dev (geometry UFAT_TYPE_FAT16 16345) 2) [1, 2]) 3)) 3 \<and>
   {b. blk_present (snd (ufat_cache_open
     (cache_opens (fresh_volume small_dev (geometry UFAT_TYPE_FAT16 16345) 2) [1, 2]) 3)) b} =
     {2, 3} \<and>
   fst (ufat_cache_open
     (cache_opens (fresh_volume small_dev (geometry UFAT_TYPE_FAT16 16345) 2) [1, 2]) 9) = -1 \<and>
   \<not> blk_present (snd (ufat_cache_open
     (cache_opens (fresh_volume small_dev (geometry UFAT_TYPE_FAT16 16345) 2) [1, 2]) 9)) 9"
proof -
  let ?uf = "fresh_volume small_dev (geometry UFAT_TYPE_FAT16 16345) 2"
  have ok: "cache_ok ?uf"
    by (simp add: cache_ok_def fresh_volume_def)
  have empty: "cache_empty ?uf"
    by (simp add: cache_empty_def slot_present_def fresh_volume_def)
  have sz: "cache_size ?uf = 2"
    by (simp add: fresh_volume_def)
  have served: "fst (ufat_cache_open (cache_opens ?uf [1, 2]) 3) = 1"
    and failed: "fst (ufat_cache_open (cache_opens ?uf [1, 2]) 9) = -1"
    by (simp_all add: fresh_volume_def replicate_two eval_open)
  have blocks: "{b. blk_present (snd (ufat_cache_open (cache_opens ?uf [1, 2]) 3)) b} = {2, 3}"
    by (auto simp: blk_present_def slot_present_def slot_index_def ex_less_two
        fresh_volume_def replicate_two eval_open)
  note inv = cache_open_invariant [OF ok empty, of "[1, 2]"]
  from inv have "cache_unique (cache_opens ?uf [1, 2])"
    by (rule conjunct1)
  moreover from inv have "card {b. blk_present (cache_opens ?uf [1, 2]) b} \<le> 2"
    unfolding sz by blast
  moreover from inv
  have "0 \<le> fst (ufat_cache_open (cache_opens ?uf [1, 2]) 3) \<longrightarrow>
      blk_present (snd (ufat_cache_open (cache_opens ?uf [1, 2]) 3)) 3"
    by blast
  with served have "blk_present (snd (ufat_cache_open (cache_opens ?uf [1, 2]) 3)) 3"
    by (simp del: cache_opens.simps)
  moreover from inv
  have "fst (ufat_cache_open (cache_opens ?uf [1, 2]) 9) < 0 \<longrightarrow>
      \<not> blk_present (snd (ufat_cache_open (cache_opens ?uf [1, 2]) 9)) 9"
    by blast
  with failed have "\<not> blk_present (snd (ufat_cache_open (cache_opens ?uf [1, 2]) 9)) 9"
    by (simp del: cache_opens.simps)
  ultimately show ?thesis
    using served failed blocks by blast
qed

text \<open>
  The claim as it is stated asks for the block to be PRESENT after every call. Take
  the volume with two free slots on \<open>boot_only_dev (-1)\<close>, the cache as \<^verbatim>\<open>ufat_open\<close>
  sets it up. The call for block 0 reads the boot sector, as in the mount; the call for
  block 7 fails in the read of the device, and block 7 is in no slot afterwards.
\<close>

theorem cache_open_present_counterexample:
  "cache_ok (fresh_volume (boot_only_dev (-1)) (geometry UFAT_TYPE_FAT12 0) 2) \<and>
   cache_empty (fresh_volume (boot_only_dev (-1)) (geometry UFAT_TYPE_FAT12 0) 2) \<and>
   fst (ufat_cache_open
     (cache_opens (fresh_volume (boot_only_dev (-1)) (geometry UFAT_TYPE_FAT12 0) 2) [0]) 7) < 0 \<and>
   \<not> blk_present
     (cache_opens (fresh_volume (boot_only_dev (-1)) (geometry UFAT_TYPE_FAT12 0) 2) [0, 7]) 7"
proof -
  let ?uf = "fresh_volume (boot_only_dev (-1)) (geometry UFAT_TYPE_FAT12 0) 2"
  have "cache_ok ?uf"
    by (simp add: cache_ok_def fresh_volume_def)
  moreover have "cache_empty ?uf"
    by (simp add: cache_empty_def slot_present_def fresh_volume_def)
  moreover have "fst (ufat_cache_open (cache_opens ?uf [0]) 7) < 0"
    by (simp add: open_boot_only open_mounted_fails_any)
  moreover have "\<not> blk_present (cache_opens ?uf [0, 7]) 7"
    by (simp add: open_boot_only blk_present_def slot_present_def slot_index_def
        open_mounted_fails_any ex_less_two)
       (simp add: mounted_volume_def)
  ultimately show ?thesis
    by blast
qed

subsection \<open>The hit and miss counters\<close>

text \<open>
  C4 (as amended). On a volume that \<^verbatim>\<open>ufat_open\<close> has mounted, after any run of calls
  of \<^verbatim>\<open>ufat_cache_open\<close>, the sum of \<open>cache_hit\<close> and \<open>cache_miss\<close> is, in the
  arithmetic of the counters, the number of the calls since the mount that returned a
  slot: the call that \<^verbatim>\<open>ufat_open\<close> makes for block 0 after it has set the counters to
  zero, and the calls of the run with a result that is not negative. A call that fails
  leaves both counters as they were.
\<close>

theorem cache_hit_miss_count:
  assumes op: "ufat_open K uf device dk = Some (r, uf')" and r: "0 \<le> r"
    and slots: "UFAT_CACHE_MAX_BLOCKS K < 2 ^ 31"
  shows "cache_hit (stat (cache_opens uf' bs)) + cache_miss (stat (cache_opens uf' bs)) =
           of_nat (Suc (opens_served uf' bs)) \<and>
         (\<forall>b. fst (ufat_cache_open (cache_opens uf' bs) b) < 0 \<longrightarrow>
            cache_hit (stat (snd (ufat_cache_open (cache_opens uf' bs) b))) =
              cache_hit (stat (cache_opens uf' bs)) \<and>
            cache_miss (stat (snd (ufat_cache_open (cache_opens uf' bs) b))) =
              cache_miss (stat (cache_opens uf' bs)))"
proof -
  from ufat_open_mounted [OF op r slots] have ok: "cache_ok uf'"
    by simp
  from ufat_open_counters [OF op r slots]
  have one: "cache_hit (stat uf') + cache_miss (stat uf') = 1"
    by simp
  have "cache_hit (stat (cache_opens uf' bs)) + cache_miss (stat (cache_opens uf' bs)) =
      of_nat (Suc (opens_served uf' bs))"
    using cache_opens_counters [OF ok, of bs] one by simp
  moreover have "\<forall>b. fst (ufat_cache_open (cache_opens uf' bs) b) < 0 \<longrightarrow>
      cache_hit (stat (snd (ufat_cache_open (cache_opens uf' bs) b))) =
        cache_hit (stat (cache_opens uf' bs)) \<and>
      cache_miss (stat (snd (ufat_cache_open (cache_opens uf' bs) b))) =
        cache_miss (stat (cache_opens uf' bs))"
    using ufat_cache_open_failed_counters [OF cache_opens_ok [OF ok, of bs]] by blast
  ultimately show ?thesis by blast
qed

text \<open>
  After the mount on \<open>small_dev\<close> and the calls for the blocks 0, 5 and 9: the first is
  a hit, the second a miss and the third fails, so three calls since the mount have
  returned a slot, \<open>cache_hit\<close> is 1 and \<open>cache_miss\<close> is 2, and the failing call has
  changed neither.
\<close>

theorem cache_hit_miss_count_witness:
  "ufat_open K0 (fresh_volume small_dev (geometry UFAT_TYPE_FAT12 0) 0) small_dev [] =
     Some (0, small_volume) \<and>
   Suc (opens_served small_volume [0, 5, 9]) = 3 \<and>
   cache_hit (stat (cache_opens small_volume [0, 5, 9])) = 1 \<and>
   cache_miss (stat (cache_opens small_volume [0, 5, 9])) = 2 \<and>
   fst (ufat_cache_open (cache_opens small_volume [0, 5]) 9) = -1 \<and>
   cache_hit (stat (snd (ufat_cache_open (cache_opens small_volume [0, 5]) 9))) =
     cache_hit (stat (cache_opens small_volume [0, 5])) \<and>
   cache_miss (stat (snd (ufat_cache_open (cache_opens small_volume [0, 5]) 9))) =
     cache_miss (stat (cache_opens small_volume [0, 5]))"
proof -
  have r: "(0 :: int) \<le> 0"
    by simp
  have slots: "UFAT_CACHE_MAX_BLOCKS K0 < 2 ^ 31"
    by (simp add: K0_def)
  note count = cache_hit_miss_count [OF ufat_open_small r slots]
  have served: "opens_served small_volume [0, 5, 9] = 2"
    and hit: "cache_hit (stat (cache_opens small_volume [0, 5, 9])) = 1"
    and failed: "fst (ufat_cache_open (cache_opens small_volume [0, 5]) 9) = -1"
    by (simp_all add: small_volume_def eval_open)
  from count [of "[0, 5, 9]"]
  have "cache_hit (stat (cache_opens small_volume [0, 5, 9])) +
      cache_miss (stat (cache_opens small_volume [0, 5, 9])) =
      of_nat (Suc (opens_served small_volume [0, 5, 9]))"
    by (rule conjunct1)
  then have "1 + cache_miss (stat (cache_opens small_volume [0, 5, 9])) = 1 + 2"
    unfolding served hit by (simp del: cache_opens.simps)
  then have miss: "cache_miss (stat (cache_opens small_volume [0, 5, 9])) = 2"
    by (simp only: add_left_cancel)
  from count [of "[0, 5]"]
  have "fst (ufat_cache_open (cache_opens small_volume [0, 5]) 9) < 0 \<longrightarrow>
    cache_hit (stat (snd (ufat_cache_open (cache_opens small_volume [0, 5]) 9))) =
      cache_hit (stat (cache_opens small_volume [0, 5])) \<and>
    cache_miss (stat (snd (ufat_cache_open (cache_opens small_volume [0, 5]) 9))) =
      cache_miss (stat (cache_opens small_volume [0, 5]))"
    by blast
  with failed
  have same: "cache_hit (stat (snd (ufat_cache_open (cache_opens small_volume [0, 5]) 9))) =
      cache_hit (stat (cache_opens small_volume [0, 5])) \<and>
    cache_miss (stat (snd (ufat_cache_open (cache_opens small_volume [0, 5]) 9))) =
      cache_miss (stat (cache_opens small_volume [0, 5]))"
    by (simp del: cache_opens.simps)
  have three: "Suc (opens_served small_volume [0, 5, 9]) = 3"
    unfolding served by simp
  from ufat_open_small three hit miss failed same show ?thesis
    by blast
qed

text \<open>
  The claim as it is stated counts every call. Take the volume with two free slots and
  both counters zero on \<open>boot_only_dev (-1)\<close>, as \<^verbatim>\<open>ufat_open\<close> sets it up. The call
  for block 0 reads the boot sector, as in the mount, and the call for block 7 fails:
  two calls have been made and the counters add up to one. The same on the volume that
  \<^verbatim>\<open>ufat_open\<close> returns: with the call of the mount and the failing call for block
  7, two calls have been made since the mount and the counters add up to one.
\<close>

theorem cache_hit_miss_counterexample:
  "cache_ok (fresh_volume (boot_only_dev (-1)) (geometry UFAT_TYPE_FAT12 0) 2) \<and>
   cache_hit (stat (fresh_volume (boot_only_dev (-1)) (geometry UFAT_TYPE_FAT12 0) 2)) +
   cache_miss (stat (fresh_volume (boot_only_dev (-1)) (geometry UFAT_TYPE_FAT12 0) 2)) = 0 \<and>
   cache_hit (stat (cache_opens
     (fresh_volume (boot_only_dev (-1)) (geometry UFAT_TYPE_FAT12 0) 2) [0, 7])) +
   cache_miss (stat (cache_opens
     (fresh_volume (boot_only_dev (-1)) (geometry UFAT_TYPE_FAT12 0) 2) [0, 7])) \<noteq>
   of_nat (length [0, 7 :: 64 word]) \<and>
   ufat_open K0 (fresh_volume (boot_only_dev (-1)) (geometry UFAT_TYPE_FAT12 0) 0)
     (boot_only_dev (-1)) [] = Some (0, mounted_volume (-1)) \<and>
   cache_hit (stat (cache_opens (mounted_volume (-1)) [7])) +
   cache_miss (stat (cache_opens (mounted_volume (-1)) [7])) \<noteq>
   of_nat (Suc (length [7 :: 64 word]))"
proof -
  let ?uf = "fresh_volume (boot_only_dev (-1)) (geometry UFAT_TYPE_FAT12 0) 2"
  have "cache_ok ?uf"
    by (simp add: cache_ok_def fresh_volume_def)
  moreover have "cache_hit (stat ?uf) + cache_miss (stat ?uf) = 0"
    by (simp add: fresh_volume_def)
  moreover have "cache_hit (stat (cache_opens ?uf [0, 7])) +
      cache_miss (stat (cache_opens ?uf [0, 7])) \<noteq> of_nat (length [0, 7 :: 64 word])"
    by (simp add: open_boot_only open_mounted_fails_any)
       (simp add: mounted_volume_def)
  moreover have "stat (snd (ufat_cache_open (mounted_volume (-1)) 7)) =
      stat (mounted_volume (-1))"
    using open_mounted_fails_any(4) [of "-1" 7 "bpb (mounted_volume (-1))"] by simp
  then have "cache_hit (stat (cache_opens (mounted_volume (-1)) [7])) +
      cache_miss (stat (cache_opens (mounted_volume (-1)) [7])) \<noteq>
      of_nat (Suc (length [7 :: 64 word]))"
    by (simp add: mounted_volume_def)
  ultimately show ?thesis
    using ufat_open_boot_only [of "-1"] by blast
qed

subsection \<open>cache_flush and the secondary FATs\<close>

lemma mirror_loop_disk:
  "disk (mirror_loop uf ci i b) =
     (slot_write uf ci ^^ (unat (fat_count (bpb uf)) - i)) (disk uf)"
proof (induction uf ci i b rule: mirror_loop.induct)
  case (1 uf ci i b)
  show ?case
  proof (cases "i < unat (fat_count (bpb uf))")
    case False
    then show ?thesis
      by (subst mirror_loop.simps) simp
  next
    case True
    obtain r dk where w: "dev_write (dev uf) (disk uf) (index (cache_desc uf ! ci)) 1
        (ufat_cache_data uf ci) = (r, dk)"
      by (cases "dev_write (dev uf) (disk uf) (index (cache_desc uf ! ci)) 1 (ufat_cache_data uf ci)")
    let ?uf' = "count_write (uf\<lparr>disk := dk\<rparr>)"
    have same: "slot_write ?uf' ci = slot_write uf ci"
      by (simp add: slot_write_def count_write_def ufat_cache_data_def fun_eq_iff)
    have dk: "dk = slot_write uf ci (disk uf)"
      using w by (simp add: slot_write_def)
    from True have n: "unat (fat_count (bpb uf)) - i = Suc (unat (fat_count (bpb uf)) - Suc i)"
      by simp
    have "disk (mirror_loop uf ci i b) = disk (mirror_loop ?uf' ci (Suc i) (b + fat_size (bpb uf)))"
      using True w by (subst mirror_loop.simps) (simp add: Let_def)
    also have "\<dots> = (slot_write uf ci ^^ (unat (fat_count (bpb uf)) - Suc i)) dk"
      using "1.IH" [OF True refl refl w [symmetric]] same
      by (simp add: count_write_def)
    also have "\<dots> = (slot_write uf ci ^^ (unat (fat_count (bpb uf)) - i)) (disk uf)"
      unfolding n dk by (simp add: funpow_swap1)
    finally show ?thesis .
  qed
qed

text \<open>
  C1. The claim: a flush of a dirty slot whose block lies in the first FAT also writes
  the block to \<open>index + k * fat_size\<close> for every \<open>k\<close> from 1 below \<open>fat_count\<close>.
  The code computes that address in \<^verbatim>\<open>b\<close> and then writes to \<^verbatim>\<open>d->index\<close> again:
  when the slot is dirty and present, its block lies in the first FAT and the first
  write succeeds, the flush returns 0 and the device has received \<open>fat_count\<close> writes,
  every one of them the write of the slot's data to \<^verbatim>\<open>d->index\<close>.
\<close>

theorem cache_flush_writes_index:
  assumes dirty: "UFAT_CACHE_FLAG_DIRTY \<in> flags (cache_desc uf ! ci)"
    and present: "UFAT_CACHE_FLAG_PRESENT \<in> flags (cache_desc uf ! ci)"
    and primary: "0 \<le> fst (dev_write (dev uf) (disk uf) (index (cache_desc uf ! ci)) 1
        (ufat_cache_data uf ci))"
    and in_fat: "fat_start (bpb uf) \<le> index (cache_desc uf ! ci)"
      "index (cache_desc uf ! ci) < fat_start (bpb uf) + fat_size (bpb uf)"
    and fats: "0 < fat_count (bpb uf)"
  shows "fst (cache_flush uf ci) = 0 \<and>
         disk (snd (cache_flush uf ci)) =
           (slot_write uf ci ^^ unat (fat_count (bpb uf))) (disk uf)"
proof -
  obtain r dk where w: "dev_write (dev uf) (disk uf) (index (cache_desc uf ! ci)) 1
      (ufat_cache_data uf ci) = (r, dk)"
    by (cases "dev_write (dev uf) (disk uf) (index (cache_desc uf ! ci)) 1 (ufat_cache_data uf ci)")
  with primary have r: "\<not> r < 0"
    by simp
  let ?uf' = "count_write (uf\<lparr>disk := dk\<rparr>)"
  have same: "slot_write ?uf' ci = slot_write uf ci"
    by (simp add: slot_write_def count_write_def ufat_cache_data_def fun_eq_iff)
  have dk: "dk = slot_write uf ci (disk uf)"
    using w by (simp add: slot_write_def)
  from fats have "0 < unat (fat_count (bpb uf))"
    by (simp add: word_less_nat_alt)
  then have n: "unat (fat_count (bpb uf)) = Suc (unat (fat_count (bpb uf)) - 1)"
    by simp
  have "disk (mirror_loop ?uf' ci 1 (index (cache_desc uf ! ci))) =
      (slot_write uf ci ^^ (unat (fat_count (bpb uf)) - 1)) dk"
    using mirror_loop_disk [of ?uf' ci 1 "index (cache_desc uf ! ci)"] same
    by (simp add: count_write_def)
  also have "\<dots> = (slot_write uf ci ^^ unat (fat_count (bpb uf))) (disk uf)"
    unfolding dk by (subst (2) n) (simp only: funpow_Suc_right o_apply)
  finally have m: "disk (mirror_loop ?uf' ci 1 (index (cache_desc uf ! ci))) =
      (slot_write uf ci ^^ unat (fat_count (bpb uf))) (disk uf)" .
  from dirty present in_fat w r m show ?thesis
    by (simp add: cache_flush_def Let_def count_write_def)
qed

text \<open>
  On \<open>dirty_fat_volume\<close>, with two FATs of 64 blocks from block 4 on, the flush of the
  slot that holds block 5 succeeds, and the device has received two writes of block 5
  and none of block 5 + 1 * 64 = 69.
\<close>

theorem cache_flush_writes_index_witness:
  "fat_start (bpb dirty_fat_volume) \<le> 5 \<and>
   5 < fat_start (bpb dirty_fat_volume) + fat_size (bpb dirty_fat_volume) \<and>
   fat_count (bpb dirty_fat_volume) = 2 \<and>
   5 + 1 * fat_size (bpb dirty_fat_volume) = 69 \<and>
   fst (cache_flush dirty_fat_volume 0) = 0 \<and>
   disk (snd (cache_flush dirty_fat_volume 0)) =
     [(5, replicate 512 0xAB), (5, replicate 512 0xAB)]"
proof -
  have d: "cache_desc dirty_fat_volume ! 0 =
      \<lparr>index = 5, seq = 0, flags = {UFAT_CACHE_FLAG_PRESENT, UFAT_CACHE_FLAG_DIRTY}\<rparr>"
    by (simp add: dirty_fat_volume_def fresh_volume_def)
  have g: "fat_start (bpb dirty_fat_volume) = 4" "fat_size (bpb dirty_fat_volume) = 64"
    "fat_count (bpb dirty_fat_volume) = 2"
    by (simp_all add: dirty_fat_volume_def fresh_volume_def geometry_def)
  have w: "slot_write dirty_fat_volume 0 dk = dk @ [(5, replicate 512 0xAB)]" for dk
    by (simp add: slot_write_def d)
       (simp add: dirty_fat_volume_def fresh_volume_def ram_dev_def ufat_cache_data_def)
  have twice: "(slot_write dirty_fat_volume 0 ^^ unat (fat_count (bpb dirty_fat_volume)))
      (disk dirty_fat_volume) = [(5, replicate 512 0xAB), (5, replicate 512 0xAB)]"
  proof -
    have "unat (fat_count (bpb dirty_fat_volume)) = Suc (Suc 0)"
      by (simp add: g)
    moreover have "disk dirty_fat_volume = []"
      by (simp add: dirty_fat_volume_def fresh_volume_def)
    ultimately show ?thesis
      by (simp add: w)
  qed
  have "fst (cache_flush dirty_fat_volume 0) = 0 \<and>
      disk (snd (cache_flush dirty_fat_volume 0)) =
        (slot_write dirty_fat_volume 0 ^^ unat (fat_count (bpb dirty_fat_volume)))
          (disk dirty_fat_volume)"
    by (rule cache_flush_writes_index)
       (simp_all add: d g, simp add: dirty_fat_volume_def fresh_volume_def ram_dev_def)
  with twice g show ?thesis
    by simp
qed

subsection \<open>ufat_sync\<close>

text \<open>
  C2. The claim: \<^verbatim>\<open>ufat_sync\<close> returns the last error of the flushes. The code keeps
  that error in \<^verbatim>\<open>ret\<close> and ends with \<^verbatim>\<open>return 0\<close>: the result of \<^verbatim>\<open>ufat_sync\<close>
  is 0 on every volume.
\<close>

theorem ufat_sync_returns_zero: "fst (ufat_sync uf) = 0"
  by (simp add: ufat_sync_def split: prod.splits)

text \<open>
  On \<open>dirty_boot_volume\<close> the flush of the second slot fails with \<open>-UFAT_ERR_IO\<close>, the
  loop ends with that value in \<^verbatim>\<open>ret\<close>, and \<^verbatim>\<open>ufat_sync\<close> returns 0.
\<close>

theorem ufat_sync_returns_zero_witness:
  "fst (cache_flush dirty_boot_volume 1) = - UFAT_ERR_IO \<and>
   fst (sync_loop dirty_boot_volume 0 0) = - UFAT_ERR_IO \<and>
   fst (ufat_sync dirty_boot_volume) = 0"
proof -
  have "fst (cache_flush dirty_boot_volume 1) = - UFAT_ERR_IO \<and>
      fst (sync_loop dirty_boot_volume 0 0) = - UFAT_ERR_IO"
    by (simp add: sync_loop.simps cache_flush_def dirty_boot_volume_def
        mounted_volume_def boot_only_dev_def geometry_def ufat_cache_data_def Let_def
        UFAT_ERR_IO_def split: prod.splits)
  with ufat_sync_returns_zero [of dirty_boot_volume] show ?thesis
    by simp
qed

subsection \<open>Mounting a FAT16 volume\<close>

lemma parse_bpb_fat16_image:
  fixes ufb :: "'b::len word ufat_bpb"
  assumes "r16 bs 0x00b = 512" "bs ! 0x00d = 4" "r16 bs 0x00e = 4" "bs ! 0x010 = 2"
    "r16 bs 0x016 = 64" "r16 bs 0x011 = 512" "r16 bs 0x013 = 0" "r32 bs 0x020 = 65536"
    "r16 bs 0x1fe = 0xaa55"
  shows "\<exists>ufb'. parse_bpb 9 ufb bs = Some (0, ufb') \<and> type ufb' = UFAT_TYPE_FAT16 \<and>
     root_size ufb' = 32 \<and> cluster_start ufb' = 164 \<and> num_clusters ufb' = 16345 \<and> fat_start ufb' = 4 \<and> fat_size ufb' = 64 \<and> fat_count ufb' = 2"
  using assms
  by (simp add: parse_bpb_def Let_def log2_exact_512 log2_exact_4 UFAT_DIRENT_SIZE_def drop_bit_eq_div)

text \<open>
  C5. A device with 512-byte blocks whose read of block 0 succeeds and delivers a boot
  sector with 512 bytes in a sector, 4 sectors in a cluster, 4 reserved sectors, 2 FATs
  of 64 sectors, 512 root entries, 65536 sectors in all and the signature 0xAA55:
  \<^verbatim>\<open>ufat_open\<close> returns 0, the type is FAT16, \<open>root_size\<close> is 32 and \<open>cluster_start\<close>
  is 164. The number 65536 does not fit the 16-bit field at offset 0x13, so that field
  is 0 and the number is in the 32-bit field at offset 0x20. The cache has room for a
  block (\<open>UFAT_CACHE_BYTES\<close> is at least 512 and \<open>UFAT_CACHE_MAX_BLOCKS\<close> is positive and
  fits an \<^verbatim>\<open>int\<close>).
\<close>

theorem ufat_open_fat16_image:
  fixes uf :: "('d, 'b::len word, 'c::len word) ufat"
  assumes blk: "log2_block_size device = 9"
    and bytes: "512 \<le> UFAT_CACHE_BYTES K"
    and slots: "0 < UFAT_CACHE_MAX_BLOCKS K" "UFAT_CACHE_MAX_BLOCKS K < 2 ^ 31"
    and rd: "\<And>buf. dev_read device dk 0 1 buf = (e, bs, dk')" and e: "0 \<le> e"
    and fields: "r16 bs 0x00b = 512" "bs ! 0x00d = 4" "r16 bs 0x00e = 4" "bs ! 0x010 = 2"
      "r16 bs 0x016 = 64" "r16 bs 0x011 = 512" "r16 bs 0x013 = 0" "r32 bs 0x020 = 65536"
      "r16 bs 0x1fe = 0xaa55"
  shows "\<exists>uf'. ufat_open K uf device dk = Some (0, uf') \<and> type (bpb uf') = UFAT_TYPE_FAT16 \<and>
     root_size (bpb uf') = 32 \<and> cluster_start (bpb uf') = 164"
proof -
  define n where "n = min (drop_bit 9 (UFAT_CACHE_BYTES K)) (UFAT_CACHE_MAX_BLOCKS K)"
  define uf2 :: "('d, 'b word, 'c word) ufat" where
    "uf2 = uf\<lparr>dev := device, disk := dk, next_seq := 0, cache_size := n,
              stat := \<lparr>stat_read = 0, stat_write = 0, read_blocks = 0,
                       write_blocks = 0, cache_hit = 0, cache_miss = 0\<rparr>,
              cache_desc := replicate (UFAT_CACHE_MAX_BLOCKS K) \<lparr>index = 0, seq = 0, flags = {}\<rparr>\<rparr>"
  from bytes have "1 \<le> UFAT_CACHE_BYTES K div 2 ^ 9"
    by (simp add: Suc_le_eq div_greater_zero_iff)
  with slots have n: "0 < n" "n \<le> UFAT_CACHE_MAX_BLOCKS K" "n < 2 ^ 31"
    by (simp_all add: n_def drop_bit_eq_div min_def)
  have open_eq: "ufat_open K uf device dk = read_bpb uf2"
    using n blk by (auto simp: ufat_open_def Let_def uf2_def n_def min_def)
  have free: "\<not> slot_present uf2 j" if "j < n" for j
    using that n by (simp add: slot_present_def uf2_def)
  have sz: "cache_size uf2 = n"
    by (simp add: uf2_def)
  obtain k where k: "k < n" and scan: "cache_scan uf2 0 0 (-1) (-1) 0 = Inr (0, int k) \<or> (\<exists>old. cache_scan uf2 0 0 (-1) (-1) 0 = Inr (old, int k))"
  proof (cases "cache_scan uf2 0 0 (-1) (-1) 0")
    case (Inl j)
    from cache_scan_Inl [OF Inl] free sz show ?thesis by auto
  next
    case (Inr p)
    obtain old fr where p: "p = (old, fr)" by (cases p)
    from cache_scan_Inr [OF Inr [unfolded p]] sz n free [of 0]
    obtain j where "j < n" "fr = int j"
      by auto
    with Inr p that show ?thesis by blast
  qed
  then obtain old where scan: "cache_scan uf2 0 0 (-1) (-1) 0 = Inr (old, int k)"
    by blast
  from k n have conv: "unsigned_of_int (int k) = k" "int_of_unsigned k = int k"
    by (simp_all add: unsigned_of_int_nat int_of_unsigned_small)
  have rd2: "dev_read (dev uf2) (disk uf2) 0 1 (ufat_cache_data uf2 k) = (e, bs, dk')"
    using rd by (simp add: uf2_def)
  obtain uf3 where op: "ufat_cache_open uf2 0 = (int k, uf3)"
    and uf3: "ufat_cache_data uf3 k = bs" "log2_block_size (dev uf3) = 9"
    using scan conv rd2 e blk
    by (simp add: ufat_cache_open_def cache_read_in_def Let_def ufat_cache_data_def uf2_def)
  from parse_bpb_fat16_image [OF fields, of "bpb uf3"]
  obtain ufb' where ufb': "parse_bpb 9 (bpb uf3) bs = Some (0, ufb')" "type ufb' = UFAT_TYPE_FAT16"
     "root_size ufb' = 32" "cluster_start ufb' = 164"
    by blast
  have "read_bpb uf2 = Some (0, uf3\<lparr>bpb := ufb'\<rparr>)"
    using op uf3 ufb' conv by (simp add: read_bpb_def)
  with open_eq ufb' show ?thesis by simp
qed

theorem ufat_open_fat16_image_witness:
  "\<exists>uf'. ufat_open K0 (fresh_volume (ram_dev (\<lambda>b. boot_sector 0 65536))
        (geometry UFAT_TYPE_FAT12 0) 0) (ram_dev (\<lambda>b. boot_sector 0 65536)) [] = Some (0, uf') \<and>
     type (bpb uf') = UFAT_TYPE_FAT16 \<and> root_size (bpb uf') = 32 \<and>
     cluster_start (bpb uf') = 164"
proof -
  have rd: "dev_read (ram_dev (\<lambda>b. boot_sector 0 65536)) [] 0 1 buf =
      (0, boot_sector 0 65536, [])" for buf
    by (simp add: ram_dev_def)
  show ?thesis
    by (rule ufat_open_fat16_image [OF _ _ _ _ rd _ boot_sector_fields(1-6) boot_sector_total(1,2)
          boot_sector_fields(7)])
       (simp_all add: ram_dev_def K0_def)
qed

subsection \<open>The cluster count of parse_bpb\<close>

text \<open>
  C10. \<^verbatim>\<open>parse_bpb\<close> has no check of the total number of sectors against the other
  regions. The boot sector \<open>boot_sector 100 0\<close> passes every check with a total of 100
  sectors, fewer than the 4 + 64 * 2 + 32 = 164 sectors of the reserved area, the FATs
  and the root directory; the result is 0, and \<open>num_clusters\<close> is the 32-bit difference
  taken modulo 2^32, shifted, plus 2: 1073741810 clusters.
\<close>

theorem parse_bpb_total_below_regions:
  fixes ufb :: "'b::len word ufat_bpb"
  shows "uint (r16 (boot_sector 100 0) 0x013) <
       uint (r16 (boot_sector 100 0) 0x00e) +
       uint (r16 (boot_sector 100 0) 0x016) * uint (boot_sector 100 0 ! 0x010) +
       (uint (r16 (boot_sector 100 0) 0x011) * UFAT_DIRENT_SIZE +
        uint (r16 (boot_sector 100 0) 0x00b) - 1) div uint (r16 (boot_sector 100 0) 0x00b) \<and>
     (\<exists>ufb'. parse_bpb 9 ufb (boot_sector 100 0) = Some (0, ufb') \<and>
        uint (num_clusters ufb') = ((100 - 4 - 64 * 2 - 32) mod 2 ^ 32) div 2 ^ 2 + 2 \<and>
        num_clusters ufb' = 1073741810 \<and> type ufb' = UFAT_TYPE_FAT16)"
  by (simp add: parse_bpb_def boot_sector_fields boot_sector_total Let_def log2_exact_512
      log2_exact_4 UFAT_DIRENT_SIZE_def drop_bit_eq_div)

subsection \<open>The FAT32 decoder\<close>

text \<open>
  C6. On a FAT32 volume, for an in-range cluster index and a call of
  \<^verbatim>\<open>ufat_cache_open\<close> for the block of the entry that returns a slot: with \<open>raw\<close> the
  32-bit little-endian entry in that slot and \<open>m\<close> its value masked with
  \<open>UFAT_CLUSTER_MASK\<close>, \<^verbatim>\<open>ufat_read_fat\<close> returns 0 and stores EOC if \<open>m \<ge> 0x0FFFFFF8\<close>,
  BAD if \<open>m \<ge> 0x0FFFFFF0\<close>, and \<open>m\<close> itself otherwise; \<open>m\<close> has no bit outside of the
  mask; and the raw entry \<open>0xF0000000 | 0x0000ABCD\<close> decodes to \<open>0x0000ABCD\<close>.
\<close>

theorem read_fat32_decodes:
  assumes fat32: "type (bpb uf) = UFAT_TYPE_FAT32"
    and inrange: "idx < num_clusters (bpb uf)"
    and opened: "ufat_cache_open uf
        (fat_start (bpb uf) + ucast (drop_bit (log2_block_size (dev uf) - 2) idx)) = (i, uf1)"
    and served: "0 \<le> i"
    and raw: "raw = r32 (ufat_cache_data uf1 (unsigned_of_int i))
        (unat ((idx AND (push_bit (log2_block_size (dev uf) - 2) 1 - 1)) * 4))"
    and masked: "m = raw AND UFAT_CLUSTER_MASK"
  shows "ufat_read_fat K uf idx =
      (0, Some (if 0x0FFFFFF8 \<le> m then UFAT_CLUSTER_EOC K
                else if 0x0FFFFFF0 \<le> m then UFAT_CLUSTER_BAD K else m), uf1) \<and>
     m AND NOT UFAT_CLUSTER_MASK = 0 \<and>
     (raw = 0xF0000000 OR 0x0000ABCD \<longrightarrow> ufat_read_fat K uf idx = (0, Some 0x0000ABCD, uf1))"
proof -
  from inrange have nr: "\<not> num_clusters (bpb uf) \<le> idx"
    by simp
  from served have ni: "\<not> i < 0"
    by simp
  have res: "ufat_read_fat K uf idx =
      (0, Some (if 0x0FFFFFF8 \<le> m then UFAT_CLUSTER_EOC K
                else if 0x0FFFFFF0 \<le> m then UFAT_CLUSTER_BAD K else m), uf1)"
    using fat32 nr opened ni raw masked
    by (simp add: ufat_read_fat_def read_fat32_def Let_def)
  have msk: "m AND NOT UFAT_CLUSTER_MASK = 0"
    unfolding masked by (simp add: and.assoc)
  have ex: "ufat_read_fat K uf idx = (0, Some 0x0000ABCD, uf1)" if "raw = 0xF0000000 OR 0x0000ABCD"
  proof -
    from that masked have "m = 0x0000ABCD"
      by (simp add: UFAT_CLUSTER_MASK_def)
    with res show ?thesis by simp
  qed
  from res msk ex show ?thesis by blast
qed

theorem read_fat32_decodes_witness:
  "fst (snd (ufat_read_fat K0
      (fresh_volume (ram_dev (fat_image32 0xCD 0xAB 0x00 0xF0)) (geometry UFAT_TYPE_FAT32 16345) 2)
      7)) = Some 0x0000ABCD"
proof -
  define vol where
    "vol = fresh_volume (ram_dev (fat_image32 0xCD 0xAB 0x00 0xF0)) (geometry UFAT_TYPE_FAT32 16345) 2"
  have ty: "type (bpb vol) = UFAT_TYPE_FAT32" "7 < num_clusters (bpb vol)"
    by (simp_all add: vol_def fresh_volume_def geometry_def)
  have blockno: "fat_start (bpb vol) +
      ucast (drop_bit (log2_block_size (dev vol) - 2) (7 :: 32 word)) = 4"
    by (simp add: vol_def fresh_volume_def geometry_def ram_dev_def drop_bit_eq_div)
  have op: "ufat_cache_open vol (fat_start (bpb vol) +
      ucast (drop_bit (log2_block_size (dev vol) - 2) (7 :: 32 word))) =
      (1, snd (ufat_cache_open vol 4))"
    unfolding blockno using open_fresh_ram(1) [of "fat_image32 0xCD 0xAB 0x00 0xF0" _ 4]
    by (simp add: vol_def prod_eq_iff)
  have raw: "r32 (ufat_cache_data (snd (ufat_cache_open vol 4)) (unsigned_of_int 1))
      (unat ((7 AND (push_bit (log2_block_size (dev vol) - 2) 1 - 1)) * 4 :: 32 word)) =
      0xF0000000 OR 0x0000ABCD"
    by (simp add: vol_def open_fresh_ram(2))
       (simp add: fresh_volume_def ram_dev_def fat_image32_def r32_def nth_append)
  have served: "(0 :: int) \<le> 1"
    by simp
  have "0xF0000000 OR 0x0000ABCD = (0xF0000000 OR 0x0000ABCD :: 32 word) \<longrightarrow>
      ufat_read_fat K0 vol 7 = (0, Some 0x0000ABCD, snd (ufat_cache_open vol 4))"
    using read_fat32_decodes [OF ty op served raw [symmetric] refl, where K = K0]
    by blast
  then have "ufat_read_fat K0 vol 7 = (0, Some 0x0000ABCD, snd (ufat_cache_open vol 4))"
    by simp
  then show ?thesis
    by (simp add: vol_def)
qed

subsection \<open>The FAT16 decoder\<close>

text \<open>
  C7. On a FAT16 volume, for an in-range cluster index and a call of
  \<^verbatim>\<open>ufat_cache_open\<close> for the block of the entry that returns a slot: with \<open>raw\<close> the
  16-bit little-endian entry in that slot, \<^verbatim>\<open>ufat_read_fat\<close> returns 0 and stores EOC
  if \<open>raw \<ge> 0xFFF8\<close>, BAD if \<open>raw \<ge> 0xFFF0\<close>, and \<open>raw\<close> itself otherwise; so 0xFFFF
  decodes to EOC, 0xFFF7 to BAD and 0x1234 to 0x1234.
\<close>

theorem read_fat16_decodes:
  assumes fat16: "type (bpb uf) = UFAT_TYPE_FAT16"
    and inrange: "idx < num_clusters (bpb uf)"
    and opened: "ufat_cache_open uf
        (fat_start (bpb uf) + ucast (drop_bit (log2_block_size (dev uf) - 1) idx)) = (i, uf1)"
    and served: "0 \<le> i"
    and raw: "raw = r16 (ufat_cache_data uf1 (unsigned_of_int i))
        (unat ((idx AND (push_bit (log2_block_size (dev uf) - 1) 1 - 1)) * 2))"
  shows "ufat_read_fat K uf idx =
      (0, Some (if 0xFFF8 \<le> raw then UFAT_CLUSTER_EOC K
                else if 0xFFF0 \<le> raw then UFAT_CLUSTER_BAD K else ucast raw), uf1) \<and>
     (raw = 0xFFFF \<longrightarrow> ufat_read_fat K uf idx = (0, Some (UFAT_CLUSTER_EOC K), uf1)) \<and>
     (raw = 0xFFF7 \<longrightarrow> ufat_read_fat K uf idx = (0, Some (UFAT_CLUSTER_BAD K), uf1)) \<and>
     (raw = 0x1234 \<longrightarrow> ufat_read_fat K uf idx = (0, Some 0x1234, uf1))"
proof -
  from inrange have nr: "\<not> num_clusters (bpb uf) \<le> idx"
    by simp
  from served have ni: "\<not> i < 0"
    by simp
  have res: "ufat_read_fat K uf idx =
      (0, Some (if 0xFFF8 \<le> raw then UFAT_CLUSTER_EOC K
                else if 0xFFF0 \<le> raw then UFAT_CLUSTER_BAD K else ucast raw), uf1)"
    using fat16 nr opened ni raw
    by (simp add: ufat_read_fat_def read_fat16_def Let_def)
  then show ?thesis by simp
qed

theorem read_fat16_decodes_witness:
  "fst (snd (ufat_read_fat K0
      (fresh_volume (ram_dev (fat_image16 0xFF 0xFF)) (geometry UFAT_TYPE_FAT16 16345) 2) 5)) =
     Some (UFAT_CLUSTER_EOC K0) \<and>
   fst (snd (ufat_read_fat K0
      (fresh_volume (ram_dev (fat_image16 0xF7 0xFF)) (geometry UFAT_TYPE_FAT16 16345) 2) 5)) =
     Some (UFAT_CLUSTER_BAD K0) \<and>
   fst (snd (ufat_read_fat K0
      (fresh_volume (ram_dev (fat_image16 0x34 0x12)) (geometry UFAT_TYPE_FAT16 16345) 2) 5)) =
     Some 0x1234"
proof -
  define vol where
    "vol lo hi = fresh_volume (ram_dev (fat_image16 lo hi)) (geometry UFAT_TYPE_FAT16 16345) 2"
    for lo hi
  have ty: "type (bpb (vol lo hi)) = UFAT_TYPE_FAT16" "5 < num_clusters (bpb (vol lo hi))"
    for lo hi
    by (simp_all add: vol_def fresh_volume_def geometry_def)
  have blockno: "fat_start (bpb (vol lo hi)) +
      ucast (drop_bit (log2_block_size (dev (vol lo hi)) - 1) (5 :: 32 word)) = 4" for lo hi
    by (simp add: vol_def fresh_volume_def geometry_def ram_dev_def drop_bit_eq_div)
  have op: "ufat_cache_open (vol lo hi) (fat_start (bpb (vol lo hi)) +
      ucast (drop_bit (log2_block_size (dev (vol lo hi)) - 1) (5 :: 32 word))) =
      (1, snd (ufat_cache_open (vol lo hi) 4))" for lo hi
    unfolding blockno using open_fresh_ram(1) [of "fat_image16 lo hi" _ 4]
    by (simp add: vol_def prod_eq_iff)
  have raw: "r16 (ufat_cache_data (snd (ufat_cache_open (vol lo hi) 4)) (unsigned_of_int 1))
      (unat ((5 AND (push_bit (log2_block_size (dev (vol lo hi)) - 1) 1 - 1)) * 2 :: 32 word)) =
      ucast lo OR push_bit 8 (ucast hi)" for lo hi
    by (simp add: vol_def open_fresh_ram(2))
       (simp add: fresh_volume_def ram_dev_def fat_image16_def r16_def nth_append)
  have t: "ufat_read_fat K0 (vol lo hi) 5 =
      (0, Some (if 0xFFF8 \<le> (ucast lo OR push_bit 8 (ucast hi) :: 16 word)
                then UFAT_CLUSTER_EOC K0
                else if 0xFFF0 \<le> (ucast lo OR push_bit 8 (ucast hi) :: 16 word)
                then UFAT_CLUSTER_BAD K0
                else ucast (ucast lo OR push_bit 8 (ucast hi) :: 16 word)),
       snd (ufat_cache_open (vol lo hi) 4))" for lo hi
    using read_fat16_decodes [OF ty op _ raw [symmetric], where K = K0] by simp
  from t [of "0xFF" "0xFF"] t [of "0xF7" "0xFF"] t [of "0x34" "0x12"] show ?thesis
    by (simp add: vol_def)
qed

subsection \<open>The range check of ufat_read_fat\<close>

text \<open>
  C8 (as amended). For a cluster index that is not below \<open>num_clusters\<close>,
  \<^verbatim>\<open>ufat_read_fat\<close> returns \<open>-UFAT_ERR_INVALID_CLUSTER\<close>, stores nothing through
  \<^verbatim>\<open>out\<close> and leaves the volume, with its cache, its counters and the state of the
  device, as it was. On a volume as \<^verbatim>\<open>ufat_open\<close> sets it up, whose device never
  returns that value from a read, the converse holds too: the result is
  \<open>-UFAT_ERR_INVALID_CLUSTER\<close> only for such an index.
\<close>

theorem ufat_read_fat_invalid_cluster:
  "(num_clusters (bpb uf) \<le> idx \<longrightarrow>
      ufat_read_fat K uf idx = (- UFAT_ERR_INVALID_CLUSTER, None, uf)) \<and>
   (cache_ok uf \<and>
    (\<forall>st blk buf. fst (dev_read (dev uf) st blk 1 buf) \<noteq> - UFAT_ERR_INVALID_CLUSTER) \<longrightarrow>
      (fst (ufat_read_fat K uf idx) = - UFAT_ERR_INVALID_CLUSTER \<longleftrightarrow>
       num_clusters (bpb uf) \<le> idx))"
proof (intro conjI impI)
  assume "num_clusters (bpb uf) \<le> idx"
  then show "ufat_read_fat K uf idx = (- UFAT_ERR_INVALID_CLUSTER, None, uf)"
    by (simp add: ufat_read_fat_def)
next
  assume h: "cache_ok uf \<and>
    (\<forall>st blk buf. fst (dev_read (dev uf) st blk 1 buf) \<noteq> - UFAT_ERR_INVALID_CLUSTER)"
  have opn: "r \<noteq> - UFAT_ERR_INVALID_CLUSTER" if "ufat_cache_open uf blk = (r, uf')" for blk r uf'
  proof -
    from ufat_cache_open_cases [OF conjunct1 [OF h] that]
    have "0 \<le> r \<or> r = - UFAT_ERR_IO \<or> (\<exists>st buf. r = fst (dev_read (dev uf) st blk 1 buf))"
      by auto
    with h show ?thesis
      by (auto simp: ufat_err_defs)
  qed
  show "fst (ufat_read_fat K uf idx) = - UFAT_ERR_INVALID_CLUSTER \<longleftrightarrow>
      num_clusters (bpb uf) \<le> idx"
  proof (cases "num_clusters (bpb uf) \<le> idx")
    case True
    then show ?thesis by (simp add: ufat_read_fat_def)
  next
    case False
    have "fst (ufat_read_fat K uf idx) \<noteq> - UFAT_ERR_INVALID_CLUSTER"
    proof (cases "type (bpb uf)")
      case UFAT_TYPE_FAT12
      with False show ?thesis
        by (simp add: ufat_read_fat_def read_fat12_def ufat_err_defs)
    next
      case UFAT_TYPE_FAT16
      obtain r uf' where o: "ufat_cache_open uf
          (fat_start (bpb uf) + ucast (drop_bit (log2_block_size (dev uf) - 1) idx)) = (r, uf')"
        by (cases "ufat_cache_open uf
          (fat_start (bpb uf) + ucast (drop_bit (log2_block_size (dev uf) - 1) idx))")
      from opn [OF o] o False UFAT_TYPE_FAT16 show ?thesis
        by (simp add: ufat_read_fat_def read_fat16_def Let_def ufat_err_defs)
    next
      case UFAT_TYPE_FAT32
      obtain r uf' where o: "ufat_cache_open uf
          (fat_start (bpb uf) + ucast (drop_bit (log2_block_size (dev uf) - 2) idx)) = (r, uf')"
        by (cases "ufat_cache_open uf
          (fat_start (bpb uf) + ucast (drop_bit (log2_block_size (dev uf) - 2) idx))")
      from opn [OF o] o False UFAT_TYPE_FAT32 show ?thesis
        by (simp add: ufat_read_fat_def read_fat32_def Let_def ufat_err_defs)
    qed
    with False show ?thesis by simp
  qed
qed

theorem ufat_read_fat_invalid_cluster_witness:
  "ufat_read_fat K0 (fresh_volume (ram_dev (\<lambda>b. [])) (geometry UFAT_TYPE_FAT16 100) 2) 200 =
     (- UFAT_ERR_INVALID_CLUSTER, None,
      fresh_volume (ram_dev (\<lambda>b. [])) (geometry UFAT_TYPE_FAT16 100) 2) \<and>
   fst (ufat_read_fat K0 (fresh_volume (ram_dev (\<lambda>b. [])) (geometry UFAT_TYPE_FAT16 100) 2) 5)
     \<noteq> - UFAT_ERR_INVALID_CLUSTER"
proof -
  let ?uf = "fresh_volume (ram_dev (\<lambda>b. [])) (geometry UFAT_TYPE_FAT16 100) 2"
  have ok: "cache_ok ?uf"
    by (simp add: cache_ok_def fresh_volume_def)
  have rd: "\<forall>st blk buf. fst (dev_read (dev ?uf) st blk 1 buf) \<noteq> - UFAT_ERR_INVALID_CLUSTER"
    by (simp add: fresh_volume_def ram_dev_def UFAT_ERR_INVALID_CLUSTER_def)
  have n: "num_clusters (bpb ?uf) = 100"
    by (simp add: fresh_volume_def geometry_def)
  from ufat_read_fat_invalid_cluster [of ?uf 200 K0] ufat_read_fat_invalid_cluster [of ?uf 5 K0]
    ok rd show ?thesis
    unfolding n by simp
qed

text \<open>
  The claim as it is stated has the converse for every device. \<^verbatim>\<open>ufat_cache_open\<close>
  returns the result of a failed read of the device as it is, and on the volume mounted
  on \<open>boot_only_dev (-5)\<close> the in-range index 5 gives the result \<open>-5\<close>, which is
  \<open>-UFAT_ERR_INVALID_CLUSTER\<close>.
\<close>

theorem ufat_read_fat_invalid_cluster_counterexample:
  "ufat_open K0 (fresh_volume (boot_only_dev (-5)) (geometry UFAT_TYPE_FAT12 0) 0)
     (boot_only_dev (-5)) [] = Some (0, mounted_volume (-5)) \<and>
   5 < num_clusters (bpb (mounted_volume (-5))) \<and>
   fst (ufat_read_fat K0 (mounted_volume (-5)) 5) = - UFAT_ERR_INVALID_CLUSTER"
proof -
  have "fst (ufat_cache_open (mounted_volume (-5)) 4) = -5"
    by (rule open_mounted_fails) simp_all
  then obtain uf' where "ufat_cache_open (mounted_volume (-5)) 4 = (-5, uf')"
    by (cases "ufat_cache_open (mounted_volume (-5)) 4") simp
  moreover have "fat_start (bpb (mounted_volume (-5))) +
      ucast (drop_bit (log2_block_size (dev (mounted_volume (-5))) - 1) (5 :: 32 word)) = 4"
    by (simp add: mounted_volume_def geometry_def boot_only_dev_def drop_bit_eq_div)
  moreover have "type (bpb (mounted_volume (-5))) = UFAT_TYPE_FAT16"
    "num_clusters (bpb (mounted_volume (-5))) = 16345"
    by (simp_all add: mounted_volume_def geometry_def)
  ultimately show ?thesis
    by (simp add: ufat_open_boot_only ufat_read_fat_def read_fat16_def Let_def
        UFAT_ERR_INVALID_CLUSTER_def)
qed

subsection \<open>The FAT12 decoder\<close>

text \<open>
  C9. On a volume whose type is FAT12, \<^verbatim>\<open>ufat_read_fat\<close> with an in-range cluster index
  returns \<open>-1\<close>, which is the negation of the IO error code, stores nothing through
  \<^verbatim>\<open>out\<close>, and leaves the volume as it was.
\<close>

theorem ufat_read_fat_fat12:
  assumes "type (bpb uf) = UFAT_TYPE_FAT12"
    and "idx < num_clusters (bpb uf)"
  shows "ufat_read_fat K uf idx = (-1, None, uf) \<and> (-1 :: int) = - UFAT_ERR_IO"
proof -
  from assms(2) have "\<not> num_clusters (bpb uf) \<le> idx"
    by simp
  with assms(1) show ?thesis
    by (simp add: ufat_read_fat_def read_fat12_def UFAT_ERR_IO_def)
qed

theorem ufat_read_fat_fat12_witness:
  "ufat_read_fat K0 (fresh_volume (ram_dev (\<lambda>b. [])) (geometry UFAT_TYPE_FAT12 100) 2) 5 =
     (-1, None, fresh_volume (ram_dev (\<lambda>b. [])) (geometry UFAT_TYPE_FAT12 100) 2)"
  using ufat_read_fat_fat12
    [of "fresh_volume (ram_dev (\<lambda>b. [])) (geometry UFAT_TYPE_FAT12 100) 2" 5 K0]
  by (simp add: fresh_volume_def geometry_def)

end
